theory Spec2Isabelle
  imports Complex_Main "HOL-Library.Multiset"
begin

section \<open>Failures\<close>

text \<open>
  Every way a cell of the two notebooks can stop early is a value of one type.
  \<open>DeviceUnavailable\<close> and \<open>ShapeMismatch\<close> are the names the specification gives to
  failures of the numerical library; \<open>ZeroDivisionError\<close> and \<open>NameError\<close> are raised by
  the Python interpreter itself; \<open>OutOfBounds\<close>, \<open>UninitializedRead\<close> and
  \<open>BarrierDivergence\<close> are the faults of a CUDA kernel (an access outside the named
  array, a read of a shared cell that was never written, a barrier that only part of
  a block reaches) and \<open>CopyOutOfBounds\<close> that of a copy between host and device
  that does not fit; the model reports them instead of leaving the behaviour
  undefined.
\<close>

datatype array_name = Global_a | Global_b | Global_c | Shared_a | Shared_b

datatype error =
    DeviceUnavailable
  | ShapeMismatch
  | ZeroDivisionError
  | NameError
  | OutOfBounds array_name
  | CopyOutOfBounds
  | UninitializedRead
  | BarrierDivergence

section \<open>The array-addition notebook (gpu\_optimization)\<close>

subsection \<open>Device memory\<close>

text \<open>
  A thread is identified by \<open>(blockIdx.x, threadIdx.x)\<close>. Each access a thread performs
  is recorded, with the array and the index, in the order it happens.
\<close>

type_synonym thread = "nat \<times> nat"

datatype access_kind = Read | Write

type_synonym access = "thread \<times> access_kind \<times> array_name \<times> int"

record 'a device =
  a_gpu :: "'a list"
  b_gpu :: "'a list"
  c_gpu :: "'a list"
  accesses :: "access list"

definition log_accesses :: "access list \<Rightarrow> 'a device \<Rightarrow> 'a device" where
  "log_accesses es m = m\<lparr>accesses := accesses m @ es\<rparr>"

text \<open>A C array access \<open>p[i]\<close> with an \<open>int\<close> index; outside the buffer it is a fault.\<close>

definition load :: "array_name \<Rightarrow> 'a list \<Rightarrow> int \<Rightarrow> error + 'a" where
  "load arr xs i =
     (if 0 \<le> i \<and> i < int (length xs) then Inr (xs ! nat i) else Inl (OutOfBounds arr))"

definition store :: "array_name \<Rightarrow> 'a list \<Rightarrow> int \<Rightarrow> 'a \<Rightarrow> error + 'a list" where
  "store arr xs i v =
     (if 0 \<le> i \<and> i < int (length xs) then Inr (xs[nat i := v]) else Inl (OutOfBounds arr))"

text \<open>A shared cell holds nothing until a thread of the block has written it.\<close>

definition load_shared :: "array_name \<Rightarrow> 'a option list \<Rightarrow> int \<Rightarrow> error + 'a" where
  "load_shared arr xs i =
     (case load arr xs i of
        Inl e \<Rightarrow> Inl e
      | Inr None \<Rightarrow> Inl UninitializedRead
      | Inr (Some v) \<Rightarrow> Inr v)"

text \<open>
  \<open>blockIdx.x\<close>, \<open>blockDim.x\<close> and \<open>threadIdx.x\<close> are unsigned 32-bit values; their
  combination wraps modulo \<open>2^32\<close> and is then stored in an \<open>int\<close>.
\<close>

definition to_int32 :: "int \<Rightarrow> int" where
  "to_int32 x = (x + 2 ^ 31) mod 2 ^ 32 - 2 ^ 31"

definition global_id :: "nat \<Rightarrow> nat \<Rightarrow> nat \<Rightarrow> int" where
  "global_id blockIdx blockDim threadIdx =
     to_int32 ((int blockIdx * int blockDim + int threadIdx) mod 2 ^ 32)"

subsection \<open>Running the threads of a launch\<close>

text \<open>
  The threads of a launch run in an order the program does not choose, and a launch
  stops at the first fault. The order is an argument of the model: a scheduler says in
  which order the threads of a grid run (for a kernel without a barrier), in which
  order the blocks run, and in which order the threads of a block run before and
  after the barrier. A scheduler is fair when each of its orders is a rearrangement of
  what it is given: every thread runs exactly once. A thread runs to its end, or to
  the barrier, before the next one starts; the lemmas below hold for every fair
  scheduler.
\<close>

fun run_threads :: "('t \<Rightarrow> 's \<Rightarrow> error + 's) \<Rightarrow> 't list \<Rightarrow> 's \<Rightarrow> error + 's" where
  "run_threads f [] s = Inr s"
| "run_threads f (t # ts) s =
     (case f t s of Inl e \<Rightarrow> Inl e | Inr s' \<Rightarrow> run_threads f ts s')"

definition grid_threads :: "nat \<Rightarrow> nat \<Rightarrow> thread list" where
  "grid_threads gridDim blockDim =
     concat (map (\<lambda>b. map (Pair b) [0..<blockDim]) [0..<gridDim])"

record scheduler =
  thread_order :: "thread list \<Rightarrow> thread list"
  block_order :: "nat list \<Rightarrow> nat list"
  before_barrier :: "nat \<Rightarrow> nat list \<Rightarrow> nat list"
  after_barrier :: "nat \<Rightarrow> nat list \<Rightarrow> nat list"

definition fair :: "scheduler \<Rightarrow> bool" where
  "fair sch =
     ((\<forall>ts. mset (thread_order sch ts) = mset ts) \<and>
      (\<forall>bs. mset (block_order sch bs) = mset bs) \<and>
      (\<forall>b ts. mset (before_barrier sch b ts) = mset ts) \<and>
      (\<forall>b ts. mset (after_barrier sch b ts) = mset ts))"

text \<open>Two schedulers: in index order, and in reverse index order throughout.\<close>

definition in_order :: scheduler where
  "in_order =
     \<lparr>thread_order = (\<lambda>ts. ts), block_order = (\<lambda>bs. bs),
      before_barrier = (\<lambda>b ts. ts), after_barrier = (\<lambda>b ts. ts)\<rparr>"

definition reversed :: scheduler where
  "reversed =
     \<lparr>thread_order = rev, block_order = rev,
      before_barrier = (\<lambda>b. rev), after_barrier = (\<lambda>b. rev)\<rparr>"

subsection \<open>The unoptimized kernel\<close>

text \<open>The body of \<open>matrix_add_unoptimized\<close>, run by one thread.\<close>

definition matrix_add_unoptimized ::
  "nat \<Rightarrow> int \<Rightarrow> thread \<Rightarrow> ('a::plus) device \<Rightarrow> error + 'a device" where
  "matrix_add_unoptimized blockDim N t m =
     (let gid = global_id (fst t) blockDim (snd t) in
      if gid < N then
        (case load Global_a (a_gpu m) gid of Inl e \<Rightarrow> Inl e | Inr x \<Rightarrow>
        (case load Global_b (b_gpu m) gid of Inl e \<Rightarrow> Inl e | Inr y \<Rightarrow>
        (case store Global_c (c_gpu m) gid (x + y) of Inl e \<Rightarrow> Inl e | Inr c' \<Rightarrow>
           Inr (log_accesses
                  [(t, Read, Global_a, gid), (t, Read, Global_b, gid),
                   (t, Write, Global_c, gid)] (m\<lparr>c_gpu := c'\<rparr>)))))
      else Inr m)"

text \<open>The call \<open>matrix_add_unoptimized(a_gpu, b_gpu, c_gpu, N, block=..., grid=...)\<close>.\<close>

definition launch_unoptimized ::
  "scheduler \<Rightarrow> nat \<Rightarrow> nat \<Rightarrow> int \<Rightarrow> ('a::plus) device \<Rightarrow> error + 'a device" where
  "launch_unoptimized sch gridDim blockDim N m =
     run_threads (matrix_add_unoptimized blockDim N)
       (thread_order sch (grid_threads gridDim blockDim)) m"

subsection \<open>The shared-memory kernel\<close>

record 'a block_state =
  global :: "'a device"
  shared_a :: "'a option list"
  shared_b :: "'a option list"

text \<open>The part of the body of \<open>matrix_add_shared_memory\<close> before \<open>__syncthreads()\<close>.\<close>

definition shared_memory_load ::
  "nat \<Rightarrow> int \<Rightarrow> thread \<Rightarrow> 'a block_state \<Rightarrow> error + 'a block_state" where
  "shared_memory_load blockDim N t s =
     (let tid = to_int32 (int (snd t));
          gid = global_id (fst t) blockDim (snd t) in
      if gid < N then
        (case load Global_a (a_gpu (global s)) gid of Inl e \<Rightarrow> Inl e | Inr x \<Rightarrow>
        (case store Shared_a (shared_a s) tid (Some x) of Inl e \<Rightarrow> Inl e | Inr sa \<Rightarrow>
        (case load Global_b (b_gpu (global s)) gid of Inl e \<Rightarrow> Inl e | Inr y \<Rightarrow>
        (case store Shared_b (shared_b s) tid (Some y) of Inl e \<Rightarrow> Inl e | Inr sb \<Rightarrow>
           Inr \<lparr>global = log_accesses
                   [(t, Read, Global_a, gid), (t, Write, Shared_a, tid),
                    (t, Read, Global_b, gid), (t, Write, Shared_b, tid)] (global s),
                shared_a = sa, shared_b = sb\<rparr>))))
      else Inr s)"

text \<open>The part of the body after \<open>__syncthreads()\<close>.\<close>

definition shared_memory_add ::
  "nat \<Rightarrow> int \<Rightarrow> thread \<Rightarrow> ('a::plus) block_state \<Rightarrow> error + 'a block_state" where
  "shared_memory_add blockDim N t s =
     (let tid = to_int32 (int (snd t));
          gid = global_id (fst t) blockDim (snd t) in
      if gid < N then
        (case load_shared Shared_a (shared_a s) tid of Inl e \<Rightarrow> Inl e | Inr x \<Rightarrow>
        (case load_shared Shared_b (shared_b s) tid of Inl e \<Rightarrow> Inl e | Inr y \<Rightarrow>
        (case store Global_c (c_gpu (global s)) gid (x + y) of Inl e \<Rightarrow> Inl e | Inr c' \<Rightarrow>
           Inr \<lparr>global = log_accesses
                   [(t, Read, Shared_a, tid), (t, Read, Shared_b, tid),
                    (t, Write, Global_c, gid)] ((global s)\<lparr>c_gpu := c'\<rparr>),
                shared_a = shared_a s, shared_b = shared_b s\<rparr>)))
      else Inr s)"

text \<open>
  \<open>__syncthreads()\<close> stands inside \<open>if (gid < N)\<close>. A block in which some threads
  take the branch and others do not reaches the barrier only in part.
\<close>

definition barrier_divergent :: "nat \<Rightarrow> int \<Rightarrow> nat \<Rightarrow> bool" where
  "barrier_divergent blockDim N bid =
     (list_ex (\<lambda>tid. global_id bid blockDim tid < N) [0..<blockDim] \<and>
      list_ex (\<lambda>tid. \<not> global_id bid blockDim tid < N) [0..<blockDim])"

text \<open>
  One block: its two shared arrays of 256 floats start empty, every thread runs up to
  the barrier, then every thread runs the rest.
\<close>

definition matrix_add_shared_memory ::
  "scheduler \<Rightarrow> nat \<Rightarrow> int \<Rightarrow> nat \<Rightarrow> ('a::plus) device \<Rightarrow> error + 'a device" where
  "matrix_add_shared_memory sch blockDim N bid m =
     (case run_threads (shared_memory_load blockDim N)
             (map (Pair bid) (before_barrier sch bid [0..<blockDim]))
             \<lparr>global = m, shared_a = replicate 256 None, shared_b = replicate 256 None\<rparr> of
        Inl e \<Rightarrow> Inl e
      | Inr s1 \<Rightarrow>
          if barrier_divergent blockDim N bid then Inl BarrierDivergence
          else (case run_threads (shared_memory_add blockDim N)
                       (map (Pair bid) (after_barrier sch bid [0..<blockDim])) s1 of
                  Inl e \<Rightarrow> Inl e
                | Inr s2 \<Rightarrow> Inr (global s2)))"

text \<open>The call \<open>matrix_add_shared_memory(a_gpu, b_gpu, c_gpu, N, block=..., grid=...)\<close>.\<close>

definition launch_shared_memory ::
  "scheduler \<Rightarrow> nat \<Rightarrow> nat \<Rightarrow> int \<Rightarrow> ('a::plus) device \<Rightarrow> error + 'a device" where
  "launch_shared_memory sch gridDim blockDim N m =
     run_threads (matrix_add_shared_memory sch blockDim N)
       (block_order sch [0..<gridDim]) m"

subsection \<open>The host side\<close>

text \<open>
  The host arrays \<open>a\<close>, \<open>b\<close>, \<open>c\<close> and the three device buffers. A fresh device
  allocation holds whatever \<open>uninit\<close> says its cells hold.
\<close>

record 'a notebook =
  a_host :: "'a list"
  b_host :: "'a list"
  c_host :: "'a list"
  device_mem :: "'a device"



definition memcpy_dtoh :: "'a list \<Rightarrow> 'a list \<Rightarrow> error + 'a list" where
  "memcpy_dtoh dst src =
     (if length dst \<le> length src then Inr (take (length dst) src)
      else Inl CopyOutOfBounds)"


text \<open>\<open>grid_size = (N + block_size - 1) // block_size\<close>\<close>

definition grid_size :: "int \<Rightarrow> int \<Rightarrow> error + int" where
  "grid_size N block_size =
     (if block_size = 0 then Inl ZeroDivisionError
      else Inr ((N + block_size - 1) div block_size))"


definition timed_shared_memory ::
  "scheduler \<Rightarrow> int \<Rightarrow> int \<Rightarrow> int \<Rightarrow> ('a::plus) notebook \<Rightarrow> error + 'a notebook" where
  "timed_shared_memory sch N block_size grid st =
     (case launch_shared_memory sch (nat grid) (nat block_size) N (device_mem st) of
        Inl e \<Rightarrow> Inl e
      | Inr m \<Rightarrow>
          (case memcpy_dtoh (c_host st) (c_gpu m) of
             Inl e \<Rightarrow> Inl e
           | Inr c \<Rightarrow> Inr (st\<lparr>c_host := c, device_mem := m\<rparr>)))"


definition step2 :: "scheduler \<Rightarrow> int \<Rightarrow> ('a::plus) notebook \<Rightarrow> error + 'a notebook" where
  "step2 sch N st =
     (case grid_size N 256 of Inl e \<Rightarrow> Inl e | Inr grid \<Rightarrow>
        timed_shared_memory sch N 256 grid st)"

definition step3 :: "scheduler \<Rightarrow> int \<Rightarrow> ('a::plus) notebook \<Rightarrow> error + 'a notebook" where
  "step3 sch N st =
     (case grid_size N 512 of Inl e \<Rightarrow> Inl e | Inr grid \<Rightarrow>
        timed_shared_memory sch N 512 grid st)"

subsection \<open>Sample inputs\<close>




definition large_device :: "int device" where
  "large_device =
     \<lparr>a_gpu = replicate 1048576 1, b_gpu = replicate 1048576 2,
      c_gpu = replicate 1048576 0, accesses = []\<rparr>"


definition large_notebook :: "int notebook" where
  "large_notebook =
     \<lparr>a_host = replicate 1048576 1, b_host = replicate 1048576 2,
      c_host = replicate 1048576 0, device_mem = large_device\<rparr>"


section \<open>The CPU/GPU comparison notebook\<close>

subsection \<open>Python floats\<close>

text \<open>
  A Python \<open>float\<close> is an IEEE 754 double: a finite value, a negative zero, an
  infinity (the flag is set for \<open>-inf\<close>) or not-a-number. \<open>Finite 0\<close> is the positive
  zero. The result of an operation is the exact result rounded to the nearest double, a
  tie going to the even significand.
\<close>

datatype pyfloat = Finite real | NegZero | Infinity bool | NaN

definition round_half_even :: "real \<Rightarrow> int" where
  "round_half_even x =
     (let f = \<lfloor>x\<rfloor>; r = x - of_int f in
      if r < 1 / 2 then f else if 1 / 2 < r then f + 1 else if even f then f else f + 1)"

definition pow2 :: "int \<Rightarrow> real" where
  "pow2 e = (if 0 \<le> e then 2 ^ nat e else 1 / 2 ^ nat (- e))"

text \<open>
  \<open>binade k x\<close> is the exponent \<open>e\<close> with \<open>2^e \<le> x < 2^(e+1)\<close> of a positive
  \<open>x\<close>, looked for in at most \<open>k\<close> steps; 2200 steps reach past both ends of the
  range of a double.
\<close>

fun binade :: "nat \<Rightarrow> real \<Rightarrow> int" where
  "binade 0 x = 0"
| "binade (Suc k) x =
     (if 2 \<le> x then binade k (x / 2) + 1
      else if x < 1 then binade k (2 * x) - 1
      else 0)"

text \<open>
  Rounding a positive magnitude with the given sign: 53 significant bits, the least
  exponent \<open>-1022\<close> (below it the spacing stays \<open>2^-1074\<close>), infinity from
  \<open>2^1024\<close> on.
\<close>

definition round_double :: "bool \<Rightarrow> real \<Rightarrow> pyfloat" where
  "round_double negative x =
     (let e = max (binade 2200 x) (- 1022);
          ulp = pow2 (e - 52);
          y = of_int (round_half_even (x / ulp)) * ulp in
      if pow2 1024 \<le> y then Infinity negative
      else if y = 0 then (if negative then NegZero else Finite 0)
      else Finite (if negative then - y else y))"

definition is_zero :: "pyfloat \<Rightarrow> bool" where
  "is_zero v = (v = Finite 0 \<or> v = NegZero)"

definition is_inf :: "pyfloat \<Rightarrow> bool" where
  "is_inf v = (case v of Infinity s \<Rightarrow> True | _ \<Rightarrow> False)"

definition is_finite :: "pyfloat \<Rightarrow> bool" where
  "is_finite v = (case v of Finite x \<Rightarrow> True | NegZero \<Rightarrow> True | _ \<Rightarrow> False)"

text \<open>The sign bit.\<close>

definition is_negative :: "pyfloat \<Rightarrow> bool" where
  "is_negative v =
     (case v of Finite x \<Rightarrow> x < 0 | NegZero \<Rightarrow> True | Infinity s \<Rightarrow> s | NaN \<Rightarrow> False)"

text \<open>The comparison \<open>v >= 0\<close>: it holds for both zeros and fails for not-a-number.\<close>

definition float_ge_zero :: "pyfloat \<Rightarrow> bool" where
  "float_ge_zero v =
     (case v of Finite x \<Rightarrow> 0 \<le> x | NegZero \<Rightarrow> True | Infinity s \<Rightarrow> \<not> s | NaN \<Rightarrow> False)"

text \<open>Every finite float is a whole multiple of \<open>2^-1074\<close>.\<close>

definition on_grid :: "real \<Rightarrow> bool" where
  "on_grid x = (of_int \<lfloor>x * 2 ^ 1074\<rfloor> = x * 2 ^ 1074)"

definition magnitude :: "pyfloat \<Rightarrow> real" where
  "magnitude v = (case v of Finite x \<Rightarrow> \<bar>x\<bar> | _ \<Rightarrow> 0)"

definition signed_zero :: "bool \<Rightarrow> pyfloat" where
  "signed_zero negative = (if negative then NegZero else Finite 0)"

text \<open>\<open>x - y\<close> for two finite floats, such as two readings of the clock.\<close>

definition float_sub :: "real \<Rightarrow> real \<Rightarrow> pyfloat" where
  "float_sub x y = (if x = y then Finite 0 else round_double (x < y) \<bar>x - y\<bar>)"

text \<open>\<open>x / y\<close>: Python raises \<open>ZeroDivisionError\<close> for a zero divisor before dividing.\<close>

definition float_div :: "pyfloat \<Rightarrow> pyfloat \<Rightarrow> error + pyfloat" where
  "float_div x y =
     (if is_zero y then Inl ZeroDivisionError
      else if x = NaN \<or> y = NaN then Inr NaN
      else if is_inf x then
        (if is_inf y then Inr NaN else Inr (Infinity (is_negative x \<noteq> is_negative y)))
      else if is_inf y then Inr (signed_zero (is_negative x \<noteq> is_negative y))
      else if is_zero x then Inr (signed_zero (is_negative x \<noteq> is_negative y))
      else Inr (round_double (is_negative x \<noteq> is_negative y) (magnitude x / magnitude y)))"

subsection \<open>Formatting a float with a fixed number of decimals\<close>

text \<open>
  The format specifications \<open>:.4f\<close> and \<open>:.2f\<close>. For a finite value: the sign, the
  integer part, a point and \<open>p\<close> digits, the exact value of the float rounded to the
  nearest multiple of \<open>10^-p\<close>, a tie going to the even digit.
\<close>

definition digit :: "nat \<Rightarrow> char" where
  "digit d = ''0123456789'' ! d"

fun decimal :: "nat \<Rightarrow> string" where
  "decimal n = (if n < 10 then [digit n] else decimal (n div 10) @ [digit (n mod 10)])"

declare decimal.simps [simp del]

definition zero_pad :: "nat \<Rightarrow> string \<Rightarrow> string" where
  "zero_pad p ds = replicate (p - length ds) (CHR ''0'') @ ds"

definition format_f :: "nat \<Rightarrow> real \<Rightarrow> string" where
  "format_f p x =
     (let q = nat (round_half_even (\<bar>x\<bar> * 10 ^ p)) in
      (if x < 0 then ''-'' else []) @ decimal (q div 10 ^ p) @
      (if p = 0 then [] else ''.'' @ zero_pad p (decimal (q mod 10 ^ p))))"

definition format_float :: "nat \<Rightarrow> pyfloat \<Rightarrow> string" where
  "format_float p v =
     (case v of
        Finite x \<Rightarrow> format_f p x
      | NegZero \<Rightarrow> ''-'' @ format_f p 0
      | Infinity s \<Rightarrow> (if s then ''-inf'' else ''inf'')
      | NaN \<Rightarrow> ''nan'')"

text \<open>The number of characters that follow the first point of a text.\<close>

definition decimal_places :: "string \<Rightarrow> nat" where
  "decimal_places ds = length (drop 1 (dropWhile (\<lambda>ch. ch \<noteq> CHR ''.'') ds))"

subsection \<open>The library and the clock\<close>

text \<open>
  What a run does that can be observed from outside, in the order in which it is done.
\<close>

datatype event =
    Generate
  | EnterDevice string
  | ClockRead real
  | MatMul string
  | Materialize
  | ExitDevice
  | Print string

text \<open>
  TensorFlow and the system clock are not part of the repository, so they are
  arguments of the model. What each of them answers may depend on everything the run
  has done before the call, which is their first argument. \<open>tf_device\<close> is what
  entering \<open>with tf.device(name)\<close> does, \<open>tf_matmul\<close> what \<open>tf.matmul\<close> does inside
  the scope of the named device, \<open>tf_numpy\<close> what \<open>result.numpy()\<close> does (its value
  is thrown away), and \<open>time_time\<close> the float that \<open>time.time()\<close> returns.
\<close>

record 't environment =
  tf_is_gpu_available :: bool
  tf_gpu_device_name :: string
  tf_device :: "event list \<Rightarrow> string \<Rightarrow> error + unit"
  tf_matmul :: "event list \<Rightarrow> string \<Rightarrow> 't \<Rightarrow> 't \<Rightarrow> error + 't"
  tf_numpy :: "event list \<Rightarrow> 't \<Rightarrow> error + unit"
  time_time :: "event list \<Rightarrow> real"

text \<open>
  The global variables of the notebook, a variable not yet assigned being \<open>None\<close>, and
  what the run has done so far.
\<close>

record 't session =
  matrix_A :: "'t option"
  matrix_B :: "'t option"
  cpu_time :: "pyfloat option"
  gpu_time :: "pyfloat option"
  events :: "event list"

definition fresh_session :: "'t session" where
  "fresh_session =
     \<lparr>matrix_A = None, matrix_B = None, cpu_time = None, gpu_time = None, events = []\<rparr>"

definition variable :: "'v option \<Rightarrow> error + 'v" where
  "variable v = (case v of None \<Rightarrow> Inl NameError | Some x \<Rightarrow> Inr x)"

text \<open>Every call below adds its own event when it returns.\<close>

definition emit :: "event \<Rightarrow> 't session \<Rightarrow> 't session" where
  "emit e s = s\<lparr>events := events s @ [e]\<rparr>"

definition print :: "string \<Rightarrow> 't session \<Rightarrow> 't session" where
  "print text s = emit (Print text) s"

definition time_call :: "'t environment \<Rightarrow> 't session \<Rightarrow> real \<times> 't session" where
  "time_call env s = (time_time env (events s), emit (ClockRead (time_time env (events s))) s)"

definition enter_device :: "'t environment \<Rightarrow> string \<Rightarrow> 't session \<Rightarrow> error + 't session" where
  "enter_device env device_name s =
     (case tf_device env (events s) device_name of
        Inl e \<Rightarrow> Inl e
      | Inr _ \<Rightarrow> Inr (emit (EnterDevice device_name) s))"

definition matmul_call ::
  "'t environment \<Rightarrow> string \<Rightarrow> 't \<Rightarrow> 't \<Rightarrow> 't session \<Rightarrow> error + 't \<times> 't session" where
  "matmul_call env device_name A B s =
     (case tf_matmul env (events s) device_name A B of
        Inl e \<Rightarrow> Inl e
      | Inr result \<Rightarrow> Inr (result, emit (MatMul device_name) s))"

definition numpy_call :: "'t environment \<Rightarrow> 't \<Rightarrow> 't session \<Rightarrow> error + 't session" where
  "numpy_call env result s =
     (case tf_numpy env (events s) result of
        Inl e \<Rightarrow> Inl e
      | Inr _ \<Rightarrow> Inr (emit Materialize s))"

text \<open>The readings of the clock so far.\<close>

fun is_clock_read :: "event \<Rightarrow> bool" where
  "is_clock_read (ClockRead t) = True"
| "is_clock_read e = False"

definition readings :: "event list \<Rightarrow> nat" where
  "readings h = length (filter is_clock_read h)"

definition clock_reads :: "'t session \<Rightarrow> nat" where
  "clock_reads s = readings (events s)"

text \<open>What the run has written to standard output: \<open>print\<close> ends each text with a newline.\<close>

fun printed :: "event list \<Rightarrow> string" where
  "printed [] = []"
| "printed (Print text # es) = text @ [CHR 0x0A] @ printed es"
| "printed (e # es) = printed es"

text \<open>
  A clock that advances by what each thing the run does costs: its reading is the sum
  of the costs of all that was done before.
\<close>

definition elapsed :: "(event \<Rightarrow> real) \<Rightarrow> event list \<Rightarrow> real" where
  "elapsed cost h = sum_list (map cost h)"

subsection \<open>The cells\<close>

text \<open>Step 2 prints what the library reports about the GPU.\<close>

definition step2_check :: "'t environment \<Rightarrow> 't session \<Rightarrow> 't session" where
  "step2_check env s =
     print (''GPU Device Name: '' @ tf_gpu_device_name env)
       (print (''Is there a GPU available?: '' @
                 (if tf_is_gpu_available env then ''True'' else ''False'')) s)"

text \<open>Step 3 binds \<open>A\<close> and \<open>B\<close> to the two matrices \<open>tf.random.normal\<close> returned.\<close>

definition create_matrices :: "'t \<Rightarrow> 't \<Rightarrow> 't session \<Rightarrow> 't session" where
  "create_matrices A B s =
     (emit Generate ((emit Generate s)\<lparr>matrix_A := Some A\<rparr>))\<lparr>matrix_B := Some B\<rparr>"

text \<open>
  \<open>measure_time(device_name)\<close>, statement by statement. An exception raised inside the
  \<open>with\<close> block leaves the function: nothing is returned.
\<close>

definition measure_time ::
  "'t environment \<Rightarrow> string \<Rightarrow> 't session \<Rightarrow> error + pyfloat \<times> 't session" where
  "measure_time env device_name s =
     (case enter_device env device_name s of Inl e \<Rightarrow> Inl e | Inr s1 \<Rightarrow>
     (case time_call env s1 of (start_time, s2) \<Rightarrow>
     (case variable (matrix_A s2) of Inl e \<Rightarrow> Inl e | Inr A \<Rightarrow>
     (case variable (matrix_B s2) of Inl e \<Rightarrow> Inl e | Inr B \<Rightarrow>
     (case matmul_call env device_name A B s2 of Inl e \<Rightarrow> Inl e | Inr (result, s3) \<Rightarrow>
     (case numpy_call env result s3 of Inl e \<Rightarrow> Inl e | Inr s4 \<Rightarrow>
     (case time_call env s4 of (end_time, s5) \<Rightarrow>
        Inr (float_sub end_time start_time, emit ExitDevice s5))))))))"

definition step4_cpu :: "'t environment \<Rightarrow> 't session \<Rightarrow> error + 't session" where
  "step4_cpu env s =
     (case measure_time env ''/CPU:0''
             (print (CHR 0x0A # ''Performing computation on CPU...'') s) of
        Inl e \<Rightarrow> Inl e
      | Inr (t, s') \<Rightarrow>
          Inr (print (''Time taken on CPU: '' @ format_float 4 t @ '' seconds'')
                 (s'\<lparr>cpu_time := Some t\<rparr>)))"

definition step5_gpu :: "'t environment \<Rightarrow> 't session \<Rightarrow> error + 't session" where
  "step5_gpu env s =
     (if tf_is_gpu_available env then
        (case measure_time env ''/GPU:0''
                (print (CHR 0x0A # ''Performing computation on GPU...'') s) of
           Inl e \<Rightarrow> Inl e
         | Inr (t, s') \<Rightarrow>
             Inr (print (''Time taken on GPU: '' @ format_float 4 t @ '' seconds'')
                    (s'\<lparr>gpu_time := Some t\<rparr>)))
      else Inr (print (CHR 0x0A # ''No GPU available. Skipping GPU computation.'') s))"

definition step6_compare :: "'t environment \<Rightarrow> 't session \<Rightarrow> error + 't session" where
  "step6_compare env s =
     (if tf_is_gpu_available env then
        (let s1 = print (CHR 0x0A # ''Comparison:'') s in
         case variable (cpu_time s1) of Inl e \<Rightarrow> Inl e | Inr c \<Rightarrow>
        (let s2 = print (''CPU time: '' @ format_float 4 c @ '' seconds'') s1 in
         case variable (gpu_time s2) of Inl e \<Rightarrow> Inl e | Inr g \<Rightarrow>
        (let s3 = print (''GPU time: '' @ format_float 4 g @ '' seconds'') s2 in
         case float_div c g of Inl e \<Rightarrow> Inl e | Inr q \<Rightarrow>
           Inr (print (''Speedup: '' @ format_float 2 q @ ''x faster on GPU!'') s3))))
      else Inr (print (CHR 0x0A # ''Comparison not available as no GPU is detected.'') s))"

text \<open>The notebook from top to bottom: the cells up to Step 5, then Step 6.\<close>

definition run_until_comparison :: "'t environment \<Rightarrow> 't \<Rightarrow> 't \<Rightarrow> error + 't session" where
  "run_until_comparison env A B =
     (case step4_cpu env (create_matrices A B (step2_check env fresh_session)) of
        Inl e \<Rightarrow> Inl e
      | Inr s4 \<Rightarrow> step5_gpu env s4)"

definition run_all :: "'t environment \<Rightarrow> 't \<Rightarrow> 't \<Rightarrow> error + 't session" where
  "run_all env A B =
     (case run_until_comparison env A B of
        Inl e \<Rightarrow> Inl e
      | Inr s5 \<Rightarrow> step6_compare env s5)"

subsection \<open>Sample environments\<close>

text \<open>
  A small stand-in for the library, used to run the cells on concrete inputs. A tensor
  is represented by its shape. With \<open>soft\<close> placement an operation asked to run on a
  device that does not exist runs on the CPU instead; without it the operation fails.
\<close>

definition sample_matmul ::
  "bool \<Rightarrow> bool \<Rightarrow> string \<Rightarrow> nat \<times> nat \<Rightarrow> nat \<times> nat \<Rightarrow> error + nat \<times> nat" where
  "sample_matmul has_gpu soft device_name A B =
     (if device_name = ''/GPU:0'' \<and> \<not> has_gpu \<and> \<not> soft then Inl DeviceUnavailable
      else if snd A \<noteq> fst B then Inl ShapeMismatch
      else Inr (fst A, snd B))"

definition always :: "'a \<Rightarrow> 'b \<Rightarrow> 'a" where
  "always x y = x"

definition sample_env ::
  "bool \<Rightarrow> bool \<Rightarrow> (event list \<Rightarrow> real) \<Rightarrow> (nat \<times> nat) environment" where
  "sample_env has_gpu soft clock =
     \<lparr>tf_is_gpu_available = has_gpu,
      tf_gpu_device_name = (if has_gpu then ''/device:GPU:0'' else []),
      tf_device = always (always (Inr ())),
      tf_matmul = always (sample_matmul has_gpu soft),
      tf_numpy = always (always (Inr ())),
      time_time = clock\<rparr>"

text \<open>
  Clocks that depend on the number of earlier readings only: one that advances
  (0, 1, 4, 9), one that is set back after its first reading (10, then 9), and one that
  stands still from its third reading on (0, 1, 2, 2). A clock that advances by one
  second for each multiplication and by a quarter for each materialization. A session
  in which Step 3 has run.
\<close>

definition sample_clock :: "event list \<Rightarrow> real" where
  "sample_clock h = real (readings h * readings h)"

definition backward_clock :: "event list \<Rightarrow> real" where
  "backward_clock h = (if readings h = 0 then 10 else 9)"

definition stalled_clock :: "event list \<Rightarrow> real" where
  "stalled_clock h = (if readings h < 3 then real (readings h) else 2)"

fun sample_cost :: "event \<Rightarrow> real" where
  "sample_cost Generate = 8"
| "sample_cost (MatMul device_name) = 1"
| "sample_cost Materialize = 1 / 4"
| "sample_cost e = 0"

definition sample_session :: "(nat \<times> nat) session" where
  "sample_session = create_matrices (2, 2) (2, 2) fresh_session"

section \<open>Properties of the array-addition notebook\<close>

subsection \<open>Indices, grids and schedules\<close>

lemma to_int32_id: "0 \<le> x \<Longrightarrow> x < 2 ^ 31 \<Longrightarrow> to_int32 x = x"
  by (simp add: to_int32_def)

lemma global_id_eq:
  "int b * int bd + int t < 2 ^ 31 \<Longrightarrow> global_id b bd t = int b * int bd + int t"
  unfolding global_id_def by (simp add: to_int32_def)

lemma set_grid_threads: "set (grid_threads g bd) = {0..<g} \<times> {0..<bd}"
  by (auto simp: grid_threads_def)

lemma grid_threads_product: "grid_threads g bd = List.product [0..<g] [0..<bd]"
  by (simp add: grid_threads_def product_concat_map)

lemma distinct_grid_threads: "distinct (grid_threads g bd)"
  by (simp add: grid_threads_product distinct_product)

lemma mset_eq_schedule:
  assumes "mset ys = mset xs" and "distinct xs"
  shows "distinct ys" and "set ys = set xs"
  using assms by (metis mset_eq_imp_distinct_iff, metis mset_eq_setD)

lemma filter_unique:
  assumes "distinct xs" "x \<in> set xs" "Q x" "\<forall>y\<in>set xs. Q y \<longrightarrow> y = x"
  shows "filter Q xs = [x]"
proof -
  obtain ys zs where split: "xs = ys @ x # zs"
    using assms(2) by (meson split_list)
  have "x \<notin> set ys" "x \<notin> set zs"
    using assms(1) split by auto
  then have "\<forall>y\<in>set ys. \<not> Q y" "\<forall>y\<in>set zs. \<not> Q y"
    using assms(4) split by fastforce+
  then have "filter Q ys = []" "filter Q zs = []"
    by (simp_all add: filter_empty_conv)
  then show ?thesis
    using split assms(3) by simp
qed

lemma concat_map_if:
  "concat (map (\<lambda>t. if Q t then [h t] else []) ts) = map h (filter Q ts)"
  by (induction ts) auto

lemma unoptimized_step:
  assumes "gid = global_id (fst t) bd (snd t)" 
    and "gid < N \<Longrightarrow> 0 \<le> gid \<and> gid < int (length (a_gpu m)) \<and> gid < int (length (b_gpu m)) \<and> gid < int (length (c_gpu m))"
  shows "matrix_add_unoptimized bd N t m =
     Inr (if gid < N then m\<lparr>c_gpu := (c_gpu m)[nat gid := a_gpu m ! nat gid + b_gpu m ! nat gid],
            accesses := accesses m @ [(t, Read, Global_a, gid), (t, Read, Global_b, gid), (t, Write, Global_c, gid)]\<rparr> else m)"
  using assms by (simp add: matrix_add_unoptimized_def load_def store_def Let_def log_accesses_def)

lemma unoptimized_run:
  assumes "\<forall>t\<in>set ts. global_id (fst t) bd (snd t) < N \<longrightarrow>
            0 \<le> global_id (fst t) bd (snd t) \<and> global_id (fst t) bd (snd t) < int (length (a_gpu m)) \<and>
            global_id (fst t) bd (snd t) < int (length (b_gpu m)) \<and> global_id (fst t) bd (snd t) < int (length (c_gpu m))"
  shows "\<exists>m'. run_threads (matrix_add_unoptimized bd N) ts m = Inr m' \<and>
           a_gpu m' = a_gpu m \<and> b_gpu m' = b_gpu m \<and> length (c_gpu m') = length (c_gpu m) \<and>
           (\<forall>i < length (c_gpu m). c_gpu m' ! i =
              (if \<exists>t\<in>set ts. global_id (fst t) bd (snd t) < N \<and> global_id (fst t) bd (snd t) = int i
               then a_gpu m ! i + b_gpu m ! i else c_gpu m ! i)) \<and>
           accesses m' = accesses m @ concat (map (\<lambda>t. if global_id (fst t) bd (snd t) < N
               then [(t, Read, Global_a, global_id (fst t) bd (snd t)),
                     (t, Read, Global_b, global_id (fst t) bd (snd t)),
                     (t, Write, Global_c, global_id (fst t) bd (snd t))] else []) ts)"
  using assms
proof (induction ts arbitrary: m)
  case Nil
  then show ?case by simp
next
  case (Cons t ts)
  let ?g = "global_id (fst t) bd (snd t)"
  let ?m1 = "(if ?g < N then m\<lparr>c_gpu := (c_gpu m)[nat ?g := a_gpu m ! nat ?g + b_gpu m ! nat ?g],
            accesses := accesses m @ [(t, Read, Global_a, ?g), (t, Read, Global_b, ?g), (t, Write, Global_c, ?g)]\<rparr> else m)"
  have step: "matrix_add_unoptimized bd N t m = Inr ?m1"
    by (rule unoptimized_step) (use Cons.prems in auto)
  have frame: "a_gpu ?m1 = a_gpu m" "b_gpu ?m1 = b_gpu m" "length (c_gpu ?m1) = length (c_gpu m)"
    by auto
  have "\<forall>t\<in>set ts. global_id (fst t) bd (snd t) < N \<longrightarrow>
            0 \<le> global_id (fst t) bd (snd t) \<and> global_id (fst t) bd (snd t) < int (length (a_gpu ?m1)) \<and>
            global_id (fst t) bd (snd t) < int (length (b_gpu ?m1)) \<and> global_id (fst t) bd (snd t) < int (length (c_gpu ?m1))"
    using Cons.prems unfolding frame by simp
  from Cons.IH[OF this] obtain m' where
    r: "run_threads (matrix_add_unoptimized bd N) ts ?m1 = Inr m'"
    and f: "a_gpu m' = a_gpu m" "b_gpu m' = b_gpu m" "length (c_gpu m') = length (c_gpu m)"
    and c: "\<forall>i < length (c_gpu m). c_gpu m' ! i =
              (if \<exists>t\<in>set ts. global_id (fst t) bd (snd t) < N \<and> global_id (fst t) bd (snd t) = int i
               then a_gpu m ! i + b_gpu m ! i else c_gpu ?m1 ! i)"
    and l: "accesses m' = accesses ?m1 @ concat (map (\<lambda>t. if global_id (fst t) bd (snd t) < N
               then [(t, Read, Global_a, global_id (fst t) bd (snd t)),
                     (t, Read, Global_b, global_id (fst t) bd (snd t)),
                     (t, Write, Global_c, global_id (fst t) bd (snd t))] else []) ts)"
    unfolding frame by blast
  have run: "run_threads (matrix_add_unoptimized bd N) (t # ts) m = Inr m'"
    using step r by simp
  have c1: "\<forall>i < length (c_gpu m). c_gpu ?m1 ! i = (if ?g < N \<and> ?g = int i then a_gpu m ! i + b_gpu m ! i else c_gpu m ! i)"
    using Cons.prems by (auto simp: nth_list_update)
  have cfin: "\<forall>i < length (c_gpu m). c_gpu m' ! i =
              (if \<exists>t\<in>set (t # ts). global_id (fst t) bd (snd t) < N \<and> global_id (fst t) bd (snd t) = int i
               then a_gpu m ! i + b_gpu m ! i else c_gpu m ! i)"
    using c c1 by auto
  have lfin: "accesses m' = accesses m @ concat (map (\<lambda>t. if global_id (fst t) bd (snd t) < N
               then [(t, Read, Global_a, global_id (fst t) bd (snd t)),
                     (t, Read, Global_b, global_id (fst t) bd (snd t)),
                     (t, Write, Global_c, global_id (fst t) bd (snd t))] else []) (t # ts))"
    using l by auto
  show ?case using run f cfin lfin by blast
qed

lemma grid_covers:
  assumes "0 < bd" "0 \<le> N" "i < nat N"
  shows "i div bd < nat ((N + int bd - 1) div int bd)"
proof -
  have "int i \<le> N - 1" using assms by linarith
  then have "int i div int bd \<le> (N - 1) div int bd"
    using assms(1) by (simp add: zdiv_mono1)
  moreover have "(N + int bd - 1) div int bd = (N - 1) div int bd + 1"
  proof -
    have "N + int bd - 1 = (N - 1) + int bd" by simp
    then show ?thesis using assms(1) by (metis div_add_self2 of_nat_0_less_iff less_irrefl)
  qed
  moreover have "int (i div bd) = int i div int bd" by (simp add: zdiv_int)
  ultimately show ?thesis by linarith
qed

lemma grid_fits:
  assumes "0 < bd" "0 \<le> N" "b < nat ((N + int bd - 1) div int bd)" "t < bd"
  shows "int b * int bd + int t < N + int bd"
proof -
  let ?g = "(N + int bd - 1) div int bd"
  have "int b + 1 \<le> ?g" using assms(3) by linarith
  then have "(int b + 1) * int bd \<le> ?g * int bd"
    using assms(1) by (simp add: mult_right_mono)
  moreover have "?g * int bd \<le> N + int bd - 1"
    using assms(1) by (metis div_mult_mod_eq le_add_same_cancel1 of_nat_0_less_iff pos_mod_sign)
  ultimately have "int b * int bd + int bd \<le> N + int bd - 1"
    by (simp add: algebra_simps)
  then show ?thesis using assms(4) by linarith
qed


lemma filter_writes:
  "filter (\<lambda>e. snd e = (Write, Global_c, j))
     (concat (map (\<lambda>t. if g t < N
        then [(t, Read, Global_a, g t), (t, Read, Global_b, g t), (t, Write, Global_c, g t)]
        else []) ts)) =
   concat (map (\<lambda>t. if g t < N \<and> g t = j then [(t, Write, Global_c, j)] else []) ts)"
  by (induction ts) auto

lemma fair_thread_order:
  assumes "fair sch"
  shows "distinct (thread_order sch (grid_threads g bd))"
    and "set (thread_order sch (grid_threads g bd)) = {0..<g} \<times> {0..<bd}"
proof -
  have m: "mset (thread_order sch (grid_threads g bd)) = mset (grid_threads g bd)"
    using assms by (simp add: fair_def)
  show "distinct (thread_order sch (grid_threads g bd))"
    using mset_eq_schedule(1)[OF m distinct_grid_threads] .
  show "set (thread_order sch (grid_threads g bd)) = {0..<g} \<times> {0..<bd}"
    using mset_eq_schedule(2)[OF m distinct_grid_threads] by (simp add: set_grid_threads)
qed

lemma global_id_grid:
  assumes "0 < bd" "0 \<le> N" "N + int bd \<le> 2 ^ 31"
    and "b < nat ((N + int bd - 1) div int bd)" "t < bd"
  shows "global_id b bd t = int b * int bd + int t"
  using grid_fits[OF assms(1,2,4,5)] assms(3) by (intro global_id_eq) linarith

lemma global_id_nowrap:
  assumes "b < g" and "t < bd" and "int g * int bd \<le> 2 ^ 31"
  shows "global_id b bd t = int b * int bd + int t"
proof -
  have "int b + 1 \<le> int g" using assms(1) by linarith
  then have "(int b + 1) * int bd \<le> int g * int bd"
    by (intro mult_right_mono) simp_all
  then have "int b * int bd + int bd \<le> 2 ^ 31"
    using assms(3) by (simp add: algebra_simps)
  then have "int b * int bd + int t < 2 ^ 31" using assms(2) by linarith
  then show ?thesis by (rule global_id_eq)
qed

lemma owner_unique:
  assumes "0 < bd" "t < bd" "int b * int bd + int t = int i"
  shows "b = i div bd \<and> t = i mod bd"
proof -
  have "b * bd + t = i" using assms(3) by (metis of_nat_add of_nat_mult of_nat_eq_iff)
  then show ?thesis using assms(1,2) by auto
qed

lemma unoptimized_launch:
  fixes m :: "('a::plus) device"
  assumes "fair sch"
    and "0 < bd" "0 \<le> N"
    and "int (nat ((N + int bd - 1) div int bd)) * int bd \<le> 2 ^ 31"
    and "N \<le> int (length (a_gpu m))" "N \<le> int (length (b_gpu m))"
        "N \<le> int (length (c_gpu m))"
  shows "\<exists>m' new. launch_unoptimized sch (nat ((N + int bd - 1) div int bd)) bd N m = Inr m' \<and>
           a_gpu m' = a_gpu m \<and> b_gpu m' = b_gpu m \<and> length (c_gpu m') = length (c_gpu m) \<and>
           accesses m' = accesses m @ new \<and>
           (\<forall>i < nat N. c_gpu m' ! i = a_gpu m ! i + b_gpu m ! i \<and>
              (\<exists>t. filter (\<lambda>e. snd e = (Write, Global_c, int i)) new = [(t, Write, Global_c, int i)])) \<and>
           (\<forall>i \<ge> nat N. i < length (c_gpu m) \<longrightarrow> c_gpu m' ! i = c_gpu m ! i) \<and>
           (\<forall>e \<in> set new. 0 \<le> snd (snd (snd e)) \<and> snd (snd (snd e)) < N)"
proof -
  let ?g = "nat ((N + int bd - 1) div int bd)"
  let ?ts = "thread_order sch (grid_threads ?g bd)"
  let ?gid = "\<lambda>t. global_id (fst t) bd (snd t)"
  let ?fp = "\<lambda>t. if ?gid t < N
               then [(t, Read, Global_a, ?gid t), (t, Read, Global_b, ?gid t),
                     (t, Write, Global_c, ?gid t)] else []"
  have dist: "distinct ?ts" and sets: "set ?ts = {0..<?g} \<times> {0..<bd}"
    using fair_thread_order[OF assms(1)] by blast+
  have gid: "?gid t = int (fst t) * int bd + int (snd t)" if "t \<in> set ?ts" for t
    using that sets global_id_nowrap[OF _ _ assms(4), where b = "fst t" and t = "snd t"] by auto
  have bounds: "\<forall>t\<in>set ?ts. ?gid t < N \<longrightarrow>
            0 \<le> ?gid t \<and> ?gid t < int (length (a_gpu m)) \<and>
            ?gid t < int (length (b_gpu m)) \<and> ?gid t < int (length (c_gpu m))"
    using gid assms(5,6,7) by auto
  from unoptimized_run[OF bounds] obtain m' where
    run: "run_threads (matrix_add_unoptimized bd N) ?ts m = Inr m'"
    and frame: "a_gpu m' = a_gpu m" "b_gpu m' = b_gpu m" "length (c_gpu m') = length (c_gpu m)"
    and c: "\<forall>i < length (c_gpu m). c_gpu m' ! i =
              (if \<exists>t\<in>set ?ts. ?gid t < N \<and> ?gid t = int i
               then a_gpu m ! i + b_gpu m ! i else c_gpu m ! i)"
    and l: "accesses m' = accesses m @ concat (map ?fp ?ts)"
    by blast
  let ?new = "concat (map ?fp ?ts)"
  have owner: "(i div bd, i mod bd) \<in> set ?ts \<and> ?gid (i div bd, i mod bd) = int i"
    if "i < nat N" for i
  proof -
    have mem: "(i div bd, i mod bd) \<in> set ?ts"
      using sets grid_covers[OF assms(2,3) that] assms(2) by simp
    have "?gid (i div bd, i mod bd) = int (i div bd) * int bd + int (i mod bd)"
      using gid[OF mem] by simp
    also have "\<dots> = int (i div bd * bd + i mod bd)"
      by (simp only: of_nat_add of_nat_mult)
    also have "i div bd * bd + i mod bd = i"
      by (rule div_mult_mod_eq)
    finally show ?thesis using mem by simp
  qed
  have vals: "c_gpu m' ! i = a_gpu m ! i + b_gpu m ! i" if "i < nat N" for i
  proof -
    have "i < length (c_gpu m)" using that assms(7) by linarith
    moreover have "\<exists>t\<in>set ?ts. ?gid t < N \<and> ?gid t = int i"
      using owner[OF that] that by (intro bexI[of _ "(i div bd, i mod bd)"]) auto
    ultimately have yes: "\<exists>t\<in>set ?ts. ?gid t < N \<and> ?gid t = int i"
      and "c_gpu m' ! i =
        (if \<exists>t\<in>set ?ts. ?gid t < N \<and> ?gid t = int i
         then a_gpu m ! i + b_gpu m ! i else c_gpu m ! i)" using c by blast+
    then show ?thesis by (simp only: if_True)
  qed
  have writes: "\<exists>t. filter (\<lambda>e. snd e = (Write, Global_c, int i)) ?new = [(t, Write, Global_c, int i)]"
    if "i < nat N" for i
  proof -
    let ?Q = "\<lambda>t. ?gid t < N \<and> ?gid t = int i"
    have "filter (\<lambda>e. snd e = (Write, Global_c, int i)) ?new =
          concat (map (\<lambda>t. if ?Q t then [(t, Write, Global_c, int i)] else []) ?ts)"
      by (rule filter_writes)
    also have "\<dots> = map (\<lambda>t. (t, Write, Global_c, int i)) (filter ?Q ?ts)"
      by (rule concat_map_if)
    also have "filter ?Q ?ts = [(i div bd, i mod bd)]"
    proof (rule filter_unique[OF dist])
      show "(i div bd, i mod bd) \<in> set ?ts" using owner[OF that] by simp
      show "?Q (i div bd, i mod bd)" using owner[OF that] that by simp
      show "\<forall>y\<in>set ?ts. ?Q y \<longrightarrow> y = (i div bd, i mod bd)"
      proof (intro ballI impI)
        fix y assume y: "y \<in> set ?ts" and "?Q y"
        then have "int (fst y) * int bd + int (snd y) = int i" using gid by simp
        moreover have "snd y < bd" using y sets by auto
        ultimately have "fst y = i div bd \<and> snd y = i mod bd"
          using owner_unique[OF assms(2)] by blast
        then show "y = (i div bd, i mod bd)" by (simp add: prod_eq_iff)
      qed
    qed
    finally show ?thesis by simp
  qed
  have untouched: "c_gpu m' ! i = c_gpu m ! i" if "nat N \<le> i" "i < length (c_gpu m)" for i
  proof -
    have no: "\<not> (\<exists>t\<in>set ?ts. ?gid t < N \<and> ?gid t = int i)" using that(1) by auto
    from c that(2) have "c_gpu m' ! i =
        (if \<exists>t\<in>set ?ts. ?gid t < N \<and> ?gid t = int i
         then a_gpu m ! i + b_gpu m ! i else c_gpu m ! i)" by blast
    then show ?thesis by (simp only: no if_False)
  qed
  have inrange: "\<forall>e \<in> set ?new. 0 \<le> snd (snd (snd e)) \<and> snd (snd (snd e)) < N"
    using gid by (auto split: if_splits)
  show ?thesis
    unfolding launch_unoptimized_def
    using run frame l vals writes untouched inrange by blast
qed

subsection \<open>The shared-memory kernel, block by block\<close>

lemma tid_int32: "tid < 256 \<Longrightarrow> to_int32 (int tid) = int tid"
  by (simp add: to_int32_def)

lemma shared_load_step:
  assumes "tid < 256" and "gid = global_id bid bd tid" and "gid < N" and "0 \<le> gid"
    and "gid < int (length (a_gpu (global s)))" and "gid < int (length (b_gpu (global s)))"
    and "length (shared_a s) = 256" and "length (shared_b s) = 256"
  shows "shared_memory_load bd N (bid, tid) s =
           Inr \<lparr>global = log_accesses
                   [((bid, tid), Read, Global_a, gid), ((bid, tid), Write, Shared_a, int tid),
                    ((bid, tid), Read, Global_b, gid), ((bid, tid), Write, Shared_b, int tid)]
                   (global s),
                shared_a = (shared_a s)[tid := Some (a_gpu (global s) ! nat gid)],
                shared_b = (shared_b s)[tid := Some (b_gpu (global s) ! nat gid)]\<rparr>"
  using assms by (simp add: shared_memory_load_def load_def store_def Let_def tid_int32)

lemma shared_load_run:
  assumes "\<forall>tid\<in>set ts. tid < 256 \<and> global_id bid bd tid < N \<and> 0 \<le> global_id bid bd tid \<and>
             global_id bid bd tid < int (length (a_gpu (global s))) \<and>
             global_id bid bd tid < int (length (b_gpu (global s)))"
    and "length (shared_a s) = 256" and "length (shared_b s) = 256"
  shows "\<exists>s'. run_threads (shared_memory_load bd N) (map (Pair bid) ts) s = Inr s' \<and>
           a_gpu (global s') = a_gpu (global s) \<and> b_gpu (global s') = b_gpu (global s) \<and>
           c_gpu (global s') = c_gpu (global s) \<and>
           length (shared_a s') = 256 \<and> length (shared_b s') = 256 \<and>
           (\<forall>tid. shared_a s' ! tid =
              (if tid \<in> set ts then Some (a_gpu (global s) ! nat (global_id bid bd tid))
               else shared_a s ! tid)) \<and>
           (\<forall>tid. shared_b s' ! tid =
              (if tid \<in> set ts then Some (b_gpu (global s) ! nat (global_id bid bd tid))
               else shared_b s ! tid))"
  using assms
proof (induction ts arbitrary: s)
  case Nil
  then show ?case by simp
next
  case (Cons t ts)
  let ?g = "global_id bid bd t"
  let ?s1 = "\<lparr>global = log_accesses
                   [((bid, t), Read, Global_a, ?g), ((bid, t), Write, Shared_a, int t),
                    ((bid, t), Read, Global_b, ?g), ((bid, t), Write, Shared_b, int t)]
                   (global s),
                shared_a = (shared_a s)[t := Some (a_gpu (global s) ! nat ?g)],
                shared_b = (shared_b s)[t := Some (b_gpu (global s) ! nat ?g)]\<rparr>"
  have t: "t < 256" using Cons.prems(1) by simp
  have step: "shared_memory_load bd N (bid, t) s = Inr ?s1"
    by (rule shared_load_step) (use Cons.prems in auto)
  have frame: "a_gpu (global ?s1) = a_gpu (global s)" "b_gpu (global ?s1) = b_gpu (global s)"
    "c_gpu (global ?s1) = c_gpu (global s)"
    by (simp_all add: log_accesses_def)
  have len: "length (shared_a ?s1) = 256" "length (shared_b ?s1) = 256"
    using Cons.prems(2,3) by simp_all
  have pre: "\<forall>tid\<in>set ts. tid < 256 \<and> global_id bid bd tid < N \<and> 0 \<le> global_id bid bd tid \<and>
             global_id bid bd tid < int (length (a_gpu (global ?s1))) \<and>
             global_id bid bd tid < int (length (b_gpu (global ?s1)))"
    using Cons.prems(1) unfolding frame by simp
  from Cons.IH[OF pre len] obtain s' where
    r: "run_threads (shared_memory_load bd N) (map (Pair bid) ts) ?s1 = Inr s'"
    and f: "a_gpu (global s') = a_gpu (global s)" "b_gpu (global s') = b_gpu (global s)"
       "c_gpu (global s') = c_gpu (global s)"
    and l: "length (shared_a s') = 256" "length (shared_b s') = 256"
    and sa: "\<forall>tid. shared_a s' ! tid =
              (if tid \<in> set ts then Some (a_gpu (global s) ! nat (global_id bid bd tid))
               else shared_a ?s1 ! tid)"
    and sb: "\<forall>tid. shared_b s' ! tid =
              (if tid \<in> set ts then Some (b_gpu (global s) ! nat (global_id bid bd tid))
               else shared_b ?s1 ! tid)"
    unfolding frame by blast
  have run: "run_threads (shared_memory_load bd N) (map (Pair bid) (t # ts)) s = Inr s'"
    using step r by simp
  have sa1: "\<forall>tid. shared_a ?s1 ! tid =
       (if tid = t then Some (a_gpu (global s) ! nat ?g) else shared_a s ! tid)"
    using t Cons.prems(2) by (simp add: nth_list_update)
  have sb1: "\<forall>tid. shared_b ?s1 ! tid =
       (if tid = t then Some (b_gpu (global s) ! nat ?g) else shared_b s ! tid)"
    using t Cons.prems(3) by (simp add: nth_list_update)
  have safin: "\<forall>tid. shared_a s' ! tid =
              (if tid \<in> set (t # ts) then Some (a_gpu (global s) ! nat (global_id bid bd tid))
               else shared_a s ! tid)"
    using sa sa1 by auto
  have sbfin: "\<forall>tid. shared_b s' ! tid =
              (if tid \<in> set (t # ts) then Some (b_gpu (global s) ! nat (global_id bid bd tid))
               else shared_b s ! tid)"
    using sb sb1 by auto
  show ?case using run f l safin sbfin by blast
qed

lemma shared_add_step:
  assumes "tid < 256" and "gid = global_id bid bd tid" and "gid < N" and "0 \<le> gid"
    and "gid < int (length (c_gpu (global s)))"
    and "length (shared_a s) = 256" and "length (shared_b s) = 256"
    and "shared_a s ! tid = Some x" and "shared_b s ! tid = Some y"
  shows "shared_memory_add bd N (bid, tid) s =
           Inr \<lparr>global = log_accesses
                   [((bid, tid), Read, Shared_a, int tid), ((bid, tid), Read, Shared_b, int tid),
                    ((bid, tid), Write, Global_c, gid)]
                   ((global s)\<lparr>c_gpu := (c_gpu (global s))[nat gid := x + y]\<rparr>),
                shared_a = shared_a s, shared_b = shared_b s\<rparr>"
  using assms
  by (simp add: shared_memory_add_def load_shared_def load_def store_def Let_def tid_int32)

lemma shared_add_run:
  assumes "\<forall>tid\<in>set ts. tid < 256 \<and> global_id bid bd tid < N \<and> 0 \<le> global_id bid bd tid \<and>
             global_id bid bd tid < int (length (c_gpu (global s))) \<and>
             shared_a s ! tid = Some (a ! nat (global_id bid bd tid)) \<and>
             shared_b s ! tid = Some (b ! nat (global_id bid bd tid))"
    and "length (shared_a s) = 256" and "length (shared_b s) = 256"
  shows "\<exists>s'. run_threads (shared_memory_add bd N) (map (Pair bid) ts) s = Inr s' \<and>
           a_gpu (global s') = a_gpu (global s) \<and> b_gpu (global s') = b_gpu (global s) \<and>
           length (c_gpu (global s')) = length (c_gpu (global s)) \<and>
           (\<forall>i < length (c_gpu (global s)). c_gpu (global s') ! i =
              (if \<exists>tid\<in>set ts. global_id bid bd tid = int i then a ! i + b ! i
               else c_gpu (global s) ! i))"
  using assms
proof (induction ts arbitrary: s)
  case Nil
  then show ?case by simp
next
  case (Cons t ts)
  let ?g = "global_id bid bd t"
  let ?s1 = "\<lparr>global = log_accesses
                   [((bid, t), Read, Shared_a, int t), ((bid, t), Read, Shared_b, int t),
                    ((bid, t), Write, Global_c, ?g)]
                   ((global s)\<lparr>c_gpu := (c_gpu (global s))[nat ?g := a ! nat ?g + b ! nat ?g]\<rparr>),
                shared_a = shared_a s, shared_b = shared_b s\<rparr>"
  have step: "shared_memory_add bd N (bid, t) s = Inr ?s1"
    by (rule shared_add_step) (use Cons.prems in auto)
  have frame: "a_gpu (global ?s1) = a_gpu (global s)" "b_gpu (global ?s1) = b_gpu (global s)"
    "length (c_gpu (global ?s1)) = length (c_gpu (global s))"
    "shared_a ?s1 = shared_a s" "shared_b ?s1 = shared_b s"
    by (simp_all add: log_accesses_def)
  have pre: "\<forall>tid\<in>set ts. tid < 256 \<and> global_id bid bd tid < N \<and> 0 \<le> global_id bid bd tid \<and>
             global_id bid bd tid < int (length (c_gpu (global ?s1))) \<and>
             shared_a ?s1 ! tid = Some (a ! nat (global_id bid bd tid)) \<and>
             shared_b ?s1 ! tid = Some (b ! nat (global_id bid bd tid))"
    using Cons.prems(1) unfolding frame by simp
  have len: "length (shared_a ?s1) = 256" "length (shared_b ?s1) = 256"
    using Cons.prems(2,3) by simp_all
  from Cons.IH[OF pre len] obtain s' where
    r: "run_threads (shared_memory_add bd N) (map (Pair bid) ts) ?s1 = Inr s'"
    and f: "a_gpu (global s') = a_gpu (global s)" "b_gpu (global s') = b_gpu (global s)"
       "length (c_gpu (global s')) = length (c_gpu (global s))"
    and c: "\<forall>i < length (c_gpu (global s)). c_gpu (global s') ! i =
              (if \<exists>tid\<in>set ts. global_id bid bd tid = int i then a ! i + b ! i
               else c_gpu (global ?s1) ! i)"
    unfolding frame by blast
  have run: "run_threads (shared_memory_add bd N) (map (Pair bid) (t # ts)) s = Inr s'"
    using step r by simp
  have c1: "\<forall>i < length (c_gpu (global s)). c_gpu (global ?s1) ! i =
       (if ?g = int i then a ! i + b ! i else c_gpu (global s) ! i)"
    using Cons.prems(1) by (auto simp: log_accesses_def nth_list_update)
  have cfin: "\<forall>i < length (c_gpu (global s)). c_gpu (global s') ! i =
              (if \<exists>tid\<in>set (t # ts). global_id bid bd tid = int i then a ! i + b ! i
               else c_gpu (global s) ! i)"
    using c c1 by auto
  show ?case using run f cfin by blast
qed
lemma fair_block_orders:
  assumes "fair sch"
  shows "set (before_barrier sch bid [0..<bd]) = {0..<bd}"
    and "set (after_barrier sch bid [0..<bd]) = {0..<bd}"
    and "set (block_order sch [0..<g]) = {0..<g}"
proof -
  have "mset (before_barrier sch bid [0..<bd]) = mset [0..<bd]"
    and "mset (after_barrier sch bid [0..<bd]) = mset [0..<bd]"
    and "mset (block_order sch [0..<g]) = mset [0..<g]"
    using assms by (simp_all add: fair_def)
  then show "set (before_barrier sch bid [0..<bd]) = {0..<bd}"
    and "set (after_barrier sch bid [0..<bd]) = {0..<bd}"
    and "set (block_order sch [0..<g]) = {0..<g}"
    by (metis mset_eq_setD set_upt)+
qed

lemma shared_block:
  fixes m :: "('a::plus) device"
  assumes "fair sch" and "bd \<le> 256"
    and full: "\<forall>tid<bd. global_id bid bd tid < N \<and> 0 \<le> global_id bid bd tid \<and>
             global_id bid bd tid < int (length (a_gpu m)) \<and>
             global_id bid bd tid < int (length (b_gpu m)) \<and>
             global_id bid bd tid < int (length (c_gpu m))"
  shows "\<exists>m'. matrix_add_shared_memory sch bd N bid m = Inr m' \<and>
           a_gpu m' = a_gpu m \<and> b_gpu m' = b_gpu m \<and>
           length (c_gpu m') = length (c_gpu m) \<and>
           (\<forall>i < length (c_gpu m). c_gpu m' ! i =
              (if \<exists>tid<bd. global_id bid bd tid = int i then a_gpu m ! i + b_gpu m ! i
               else c_gpu m ! i))"
proof -
  let ?s0 = "\<lparr>global = m, shared_a = replicate 256 None, shared_b = replicate 256 None\<rparr>
               :: 'a block_state"
  let ?ts1 = "before_barrier sch bid [0..<bd]"
  let ?ts2 = "after_barrier sch bid [0..<bd]"
  have s1: "set ?ts1 = {0..<bd}" and s2: "set ?ts2 = {0..<bd}"
    using fair_block_orders[OF assms(1)] by blast+
  have pre1: "\<forall>tid\<in>set ?ts1. tid < 256 \<and> global_id bid bd tid < N \<and> 0 \<le> global_id bid bd tid \<and>
             global_id bid bd tid < int (length (a_gpu (global ?s0))) \<and>
             global_id bid bd tid < int (length (b_gpu (global ?s0)))"
    using full assms(2) unfolding s1 by auto
  have "length (shared_a ?s0) = 256" "length (shared_b ?s0) = 256" by simp_all
  from shared_load_run[OF pre1 this] obtain s' where
    r1: "run_threads (shared_memory_load bd N) (map (Pair bid) ?ts1) ?s0 = Inr s'"
    and f1: "a_gpu (global s') = a_gpu m" "b_gpu (global s') = b_gpu m"
        "c_gpu (global s') = c_gpu m"
    and l1: "length (shared_a s') = 256" "length (shared_b s') = 256"
    and sa: "\<forall>tid. shared_a s' ! tid =
              (if tid \<in> set ?ts1 then Some (a_gpu m ! nat (global_id bid bd tid))
               else replicate 256 None ! tid)"
    and sb: "\<forall>tid. shared_b s' ! tid =
              (if tid \<in> set ?ts1 then Some (b_gpu m ! nat (global_id bid bd tid))
               else replicate 256 None ! tid)"
    by auto
  have nodiv: "\<not> barrier_divergent bd N bid"
    using full by (auto simp: barrier_divergent_def list_ex_iff)
  have pre2: "\<forall>tid\<in>set ?ts2. tid < 256 \<and> global_id bid bd tid < N \<and> 0 \<le> global_id bid bd tid \<and>
             global_id bid bd tid < int (length (c_gpu (global s'))) \<and>
             shared_a s' ! tid = Some (a_gpu m ! nat (global_id bid bd tid)) \<and>
             shared_b s' ! tid = Some (b_gpu m ! nat (global_id bid bd tid))"
    using full assms(2) sa sb unfolding s1 s2 f1 by auto
  from shared_add_run[OF pre2 l1] obtain s'' where
    r2: "run_threads (shared_memory_add bd N) (map (Pair bid) ?ts2) s' = Inr s''"
    and f2: "a_gpu (global s'') = a_gpu m" "b_gpu (global s'') = b_gpu m"
        "length (c_gpu (global s'')) = length (c_gpu m)"
    and c: "\<forall>i < length (c_gpu m). c_gpu (global s'') ! i =
              (if \<exists>tid\<in>set ?ts2. global_id bid bd tid = int i then a_gpu m ! i + b_gpu m ! i
               else c_gpu m ! i)"
    unfolding f1 by blast
  have res: "matrix_add_shared_memory sch bd N bid m = Inr (global s'')"
    unfolding matrix_add_shared_memory_def using r1 nodiv r2 by simp
  have c': "\<forall>i < length (c_gpu m). c_gpu (global s'') ! i =
              (if \<exists>tid<bd. global_id bid bd tid = int i then a_gpu m ! i + b_gpu m ! i
               else c_gpu m ! i)"
    using c unfolding s2 by (simp add: Bex_def)
  show ?thesis using res f2 c' by blast
qed

lemma shared_blocks_run:
  fixes m :: "('a::plus) device"
  assumes "fair sch" and "bd \<le> 256"
    and "\<forall>bid\<in>set bs. \<forall>tid<bd. global_id bid bd tid < N \<and> 0 \<le> global_id bid bd tid \<and>
             global_id bid bd tid < int (length (a_gpu m)) \<and>
             global_id bid bd tid < int (length (b_gpu m)) \<and>
             global_id bid bd tid < int (length (c_gpu m))"
  shows "\<exists>m'. run_threads (matrix_add_shared_memory sch bd N) bs m = Inr m' \<and>
           a_gpu m' = a_gpu m \<and> b_gpu m' = b_gpu m \<and>
           length (c_gpu m') = length (c_gpu m) \<and>
           (\<forall>i < length (c_gpu m). c_gpu m' ! i =
              (if \<exists>bid\<in>set bs. \<exists>tid<bd. global_id bid bd tid = int i
               then a_gpu m ! i + b_gpu m ! i else c_gpu m ! i))"
  using assms(3)
proof (induction bs arbitrary: m)
  case Nil
  then show ?case by simp
next
  case (Cons b bs)
  have "\<forall>tid<bd. global_id b bd tid < N \<and> 0 \<le> global_id b bd tid \<and>
             global_id b bd tid < int (length (a_gpu m)) \<and>
             global_id b bd tid < int (length (b_gpu m)) \<and>
             global_id b bd tid < int (length (c_gpu m))"
    using Cons.prems by simp
  from shared_block[OF assms(1,2) this] obtain m1 where
    r1: "matrix_add_shared_memory sch bd N b m = Inr m1"
    and f1: "a_gpu m1 = a_gpu m" "b_gpu m1 = b_gpu m" "length (c_gpu m1) = length (c_gpu m)"
    and c1: "\<forall>i < length (c_gpu m). c_gpu m1 ! i =
              (if \<exists>tid<bd. global_id b bd tid = int i then a_gpu m ! i + b_gpu m ! i
               else c_gpu m ! i)"
    by blast
  have pre: "\<forall>bid\<in>set bs. \<forall>tid<bd. global_id bid bd tid < N \<and> 0 \<le> global_id bid bd tid \<and>
             global_id bid bd tid < int (length (a_gpu m1)) \<and>
             global_id bid bd tid < int (length (b_gpu m1)) \<and>
             global_id bid bd tid < int (length (c_gpu m1))"
    using Cons.prems unfolding f1 by simp
  from Cons.IH[OF pre] obtain m' where
    r: "run_threads (matrix_add_shared_memory sch bd N) bs m1 = Inr m'"
    and f: "a_gpu m' = a_gpu m" "b_gpu m' = b_gpu m" "length (c_gpu m') = length (c_gpu m)"
    and c: "\<forall>i < length (c_gpu m). c_gpu m' ! i =
              (if \<exists>bid\<in>set bs. \<exists>tid<bd. global_id bid bd tid = int i
               then a_gpu m ! i + b_gpu m ! i else c_gpu m1 ! i)"
    unfolding f1 by blast
  have run: "run_threads (matrix_add_shared_memory sch bd N) (b # bs) m = Inr m'"
    using r1 r by simp
  have cfin: "\<forall>i < length (c_gpu m). c_gpu m' ! i =
              (if \<exists>bid\<in>set (b # bs). \<exists>tid<bd. global_id bid bd tid = int i
               then a_gpu m ! i + b_gpu m ! i else c_gpu m ! i)"
    using c c1 by auto
  show ?case using run f cfin by blast
qed

lemma grid_full:
  assumes "0 < bd" and "0 \<le> N" and "int bd dvd N"
    and "b < nat ((N + int bd - 1) div int bd)" and "t < bd"
  shows "int b * int bd + int t < N"
proof -
  obtain k where k: "N = int bd * k" using assms(3) by (auto simp: dvd_def)
  have bdpos: "0 < int bd" using assms(1) by simp
  have "(N + int bd - 1) div int bd = k"
  proof -
    have eq: "N + int bd - 1 = (int bd - 1) + k * int bd" using k by (simp add: algebra_simps)
    have "(N + int bd - 1) div int bd = ((int bd - 1) + k * int bd) div int bd"
      by (simp only: eq)
    also have "\<dots> = (int bd - 1) div int bd + k"
      using bdpos by (subst div_mult_self1) simp_all
    also have "(int bd - 1) div int bd = 0" using bdpos by (intro div_pos_pos_trivial) simp_all
    finally show ?thesis by simp
  qed
  then have "int b + 1 \<le> k" using assms(4) by linarith
  then have "(int b + 1) * int bd \<le> k * int bd"
    using bdpos by (intro mult_right_mono) simp_all
  then have "int b * int bd + int bd \<le> N" using k by (simp add: algebra_simps)
  then show ?thesis using assms(5) by linarith
qed

lemma shared_launch:
  fixes m :: "('a::plus) device"
  assumes "fair sch" and "0 < bd" and "bd \<le> 256" and "0 \<le> N" and "int bd dvd N"
    and "N + int bd \<le> 2 ^ 31"
    and "N \<le> int (length (a_gpu m))" and "N \<le> int (length (b_gpu m))"
    and "N \<le> int (length (c_gpu m))"
  shows "\<exists>m'. launch_shared_memory sch (nat ((N + int bd - 1) div int bd)) bd N m = Inr m' \<and>
           a_gpu m' = a_gpu m \<and> b_gpu m' = b_gpu m \<and>
           length (c_gpu m') = length (c_gpu m) \<and>
           (\<forall>i < nat N. c_gpu m' ! i = a_gpu m ! i + b_gpu m ! i) \<and>
           (\<forall>i \<ge> nat N. i < length (c_gpu m) \<longrightarrow> c_gpu m' ! i = c_gpu m ! i)"
proof -
  let ?g = "nat ((N + int bd - 1) div int bd)"
  let ?bs = "block_order sch [0..<?g]"
  have sets: "set ?bs = {0..<?g}"
    using fair_block_orders(3)[OF assms(1)] .
  have gid: "global_id b bd t = int b * int bd + int t" if "b < ?g" "t < bd" for b t
    using global_id_grid[OF assms(2,4,6) that] .
  have lt: "int b * int bd + int t < N" if "b < ?g" "t < bd" for b t
    using grid_full[OF assms(2,4,5) that] .
  have pre: "\<forall>bid\<in>set ?bs. \<forall>tid<bd. global_id bid bd tid < N \<and> 0 \<le> global_id bid bd tid \<and>
             global_id bid bd tid < int (length (a_gpu m)) \<and>
             global_id bid bd tid < int (length (b_gpu m)) \<and>
             global_id bid bd tid < int (length (c_gpu m))"
  proof (intro ballI allI impI)
    fix bid tid assume "bid \<in> set ?bs" "tid < bd"
    then have b: "bid < ?g" using sets by simp
    have "global_id bid bd tid = int bid * int bd + int tid" using gid[OF b \<open>tid < bd\<close>] .
    moreover have "int bid * int bd + int tid < N" using lt[OF b \<open>tid < bd\<close>] .
    ultimately show "global_id bid bd tid < N \<and> 0 \<le> global_id bid bd tid \<and>
             global_id bid bd tid < int (length (a_gpu m)) \<and>
             global_id bid bd tid < int (length (b_gpu m)) \<and>
             global_id bid bd tid < int (length (c_gpu m))"
      using assms(7,8,9) by simp
  qed
  from shared_blocks_run[OF assms(1,3) pre] obtain m' where
    run: "run_threads (matrix_add_shared_memory sch bd N) ?bs m = Inr m'"
    and frame: "a_gpu m' = a_gpu m" "b_gpu m' = b_gpu m" "length (c_gpu m') = length (c_gpu m)"
    and c: "\<forall>i < length (c_gpu m). c_gpu m' ! i =
              (if \<exists>bid\<in>set ?bs. \<exists>tid<bd. global_id bid bd tid = int i
               then a_gpu m ! i + b_gpu m ! i else c_gpu m ! i)"
    by blast
  have vals: "c_gpu m' ! i = a_gpu m ! i + b_gpu m ! i" if "i < nat N" for i
  proof -
    have len: "i < length (c_gpu m)" using that assms(9) by linarith
    have b: "i div bd < ?g" using grid_covers[OF assms(2,4) that] .
    have t: "i mod bd < bd" using assms(2) by simp
    have "global_id (i div bd) bd (i mod bd) = int (i div bd) * int bd + int (i mod bd)"
      using gid[OF b t] .
    also have "\<dots> = int (i div bd * bd + i mod bd)"
      by (simp only: of_nat_add of_nat_mult)
    also have "i div bd * bd + i mod bd = i"
      by (rule div_mult_mod_eq)
    finally have "\<exists>tid<bd. global_id (i div bd) bd tid = int i" using t by blast
    then have yes: "\<exists>bid\<in>set ?bs. \<exists>tid<bd. global_id bid bd tid = int i"
      using b sets by auto
    from c len have "c_gpu m' ! i =
              (if \<exists>bid\<in>set ?bs. \<exists>tid<bd. global_id bid bd tid = int i
               then a_gpu m ! i + b_gpu m ! i else c_gpu m ! i)" by blast
    then show ?thesis by (simp only: yes if_True)
  qed
  have untouched: "c_gpu m' ! i = c_gpu m ! i" if "nat N \<le> i" "i < length (c_gpu m)" for i
  proof -
    have no: "\<not> (\<exists>bid\<in>set ?bs. \<exists>tid<bd. global_id bid bd tid = int i)"
    proof
      assume "\<exists>bid\<in>set ?bs. \<exists>tid<bd. global_id bid bd tid = int i"
      then obtain bid tid where "bid < ?g" "tid < bd" "global_id bid bd tid = int i"
        using sets by auto
      then have "int i < N" using gid lt by metis
      then show False using that(1) by linarith
    qed
    from c that(2) have "c_gpu m' ! i =
              (if \<exists>bid\<in>set ?bs. \<exists>tid<bd. global_id bid bd tid = int i
               then a_gpu m ! i + b_gpu m ! i else c_gpu m ! i)" by blast
    then show ?thesis by (simp only: no if_False)
  qed
  show ?thesis
    unfolding launch_shared_memory_def
    using run frame vals untouched by blast
qed







subsection \<open>A block wider than the shared arrays\<close>

lemma shared_load_overflow:
  assumes "256 \<le> tid" and "tid < 2 ^ 31" and "gid = global_id bid bd tid" and "gid < N"
    and "0 \<le> gid" and "gid < int (length (a_gpu (global s)))"
    and "length (shared_a s) = 256"
  shows "shared_memory_load bd N (bid, tid) s = Inl (OutOfBounds Shared_a)"
proof -
  have "to_int32 (int tid) = int tid"
    using assms(2) by (intro to_int32_id) auto
  then show ?thesis
    using assms(1,3-7)
    by (simp add: shared_memory_load_def load_def store_def Let_def)
qed

lemma shared_load_run_fails:
  assumes "\<exists>tid\<in>set ts. 256 \<le> tid"
    and "\<forall>tid\<in>set ts. tid < 2 ^ 31 \<and> global_id bid bd tid < N \<and> 0 \<le> global_id bid bd tid \<and>
           global_id bid bd tid < int (length (a_gpu (global s))) \<and>
           global_id bid bd tid < int (length (b_gpu (global s)))"
    and "length (shared_a s) = 256" and "length (shared_b s) = 256"
  shows "run_threads (shared_memory_load bd N) (map (Pair bid) ts) s =
           Inl (OutOfBounds Shared_a)"
  using assms
proof (induction ts arbitrary: s)
  case Nil
  then show ?case by simp
next
  case (Cons t ts)
  show ?case
  proof (cases "256 \<le> t")
    case True
    have "shared_memory_load bd N (bid, t) s = Inl (OutOfBounds Shared_a)"
      by (rule shared_load_overflow[OF True]) (use Cons.prems in auto)
    then show ?thesis by simp
  next
    case False
    let ?g = "global_id bid bd t"
    let ?s1 = "\<lparr>global = log_accesses
                   [((bid, t), Read, Global_a, ?g), ((bid, t), Write, Shared_a, int t),
                    ((bid, t), Read, Global_b, ?g), ((bid, t), Write, Shared_b, int t)]
                   (global s),
                shared_a = (shared_a s)[t := Some (a_gpu (global s) ! nat ?g)],
                shared_b = (shared_b s)[t := Some (b_gpu (global s) ! nat ?g)]\<rparr>"
    have step: "shared_memory_load bd N (bid, t) s = Inr ?s1"
      by (rule shared_load_step) (use False Cons.prems in auto)
    have frame: "a_gpu (global ?s1) = a_gpu (global s)" "b_gpu (global ?s1) = b_gpu (global s)"
      by (simp_all add: log_accesses_def)
    have "\<exists>tid\<in>set ts. 256 \<le> tid" using Cons.prems(1) False by auto
    moreover have "\<forall>tid\<in>set ts. tid < 2 ^ 31 \<and> global_id bid bd tid < N \<and>
           0 \<le> global_id bid bd tid \<and>
           global_id bid bd tid < int (length (a_gpu (global ?s1))) \<and>
           global_id bid bd tid < int (length (b_gpu (global ?s1)))"
      using Cons.prems(2) unfolding frame by simp
    moreover have "length (shared_a ?s1) = 256" "length (shared_b ?s1) = 256"
      using Cons.prems(3,4) by simp_all
    ultimately have "run_threads (shared_memory_load bd N) (map (Pair bid) ts) ?s1 =
        Inl (OutOfBounds Shared_a)"
      by (rule Cons.IH)
    with step show ?thesis by simp
  qed
qed

lemma shared_block_fails:
  fixes m :: "('a::plus) device"
  assumes "fair sch" and "256 < bd" and "int bd \<le> 2 ^ 31"
    and "\<forall>tid<bd. global_id bid bd tid < N \<and> 0 \<le> global_id bid bd tid \<and>
           global_id bid bd tid < int (length (a_gpu m)) \<and>
           global_id bid bd tid < int (length (b_gpu m))"
  shows "matrix_add_shared_memory sch bd N bid m = Inl (OutOfBounds Shared_a)"
proof -
  let ?ts = "before_barrier sch bid [0..<bd]"
  let ?s0 = "\<lparr>global = m, shared_a = replicate 256 None, shared_b = replicate 256 None\<rparr>
               :: 'a block_state"
  have sets: "set ?ts = {0..<bd}"
    using fair_block_orders(1)[OF assms(1)] .
  have "\<exists>tid\<in>set ?ts. 256 \<le> tid"
    unfolding sets using assms(2) by (intro bexI[of _ 256]) simp_all
  moreover have "\<forall>tid\<in>set ?ts. tid < 2 ^ 31 \<and> global_id bid bd tid < N \<and>
           0 \<le> global_id bid bd tid \<and>
           global_id bid bd tid < int (length (a_gpu (global ?s0))) \<and>
           global_id bid bd tid < int (length (b_gpu (global ?s0)))"
  proof
    fix tid assume "tid \<in> set ?ts"
    then have t: "tid < bd" using sets by simp
    then have "int tid < 2 ^ 31" using assms(3) by linarith
    then have "tid < 2 ^ 31" by (metis of_nat_less_iff of_nat_numeral of_nat_power)
    then show "tid < 2 ^ 31 \<and> global_id bid bd tid < N \<and>
           0 \<le> global_id bid bd tid \<and>
           global_id bid bd tid < int (length (a_gpu (global ?s0))) \<and>
           global_id bid bd tid < int (length (b_gpu (global ?s0)))"
      using assms(4) t by simp
  qed
  moreover have "length (shared_a ?s0) = 256" "length (shared_b ?s0) = 256" by simp_all
  ultimately have "run_threads (shared_memory_load bd N) (map (Pair bid) ?ts) ?s0 =
      Inl (OutOfBounds Shared_a)"
    by (rule shared_load_run_fails)
  then show ?thesis by (simp add: matrix_add_shared_memory_def)
qed

lemma shared_launch_fails:
  fixes m :: "('a::plus) device"
  assumes "fair sch" and "256 < bd" and "0 < N" and "int bd dvd N" and "N + int bd \<le> 2 ^ 31"
    and "N \<le> int (length (a_gpu m))" and "N \<le> int (length (b_gpu m))"
  shows "launch_shared_memory sch (nat ((N + int bd - 1) div int bd)) bd N m =
           Inl (OutOfBounds Shared_a)"
proof -
  let ?g = "nat ((N + int bd - 1) div int bd)"
  let ?bs = "block_order sch [0..<?g]"
  have bd: "0 < bd" using assms(2) by simp
  have N: "0 \<le> N" using assms(3) by simp
  have sets: "set ?bs = {0..<?g}"
    using fair_block_orders(3)[OF assms(1)] .
  have "0 < ?g" using grid_covers[OF bd N, of 0] assms(3) by simp
  then have "?bs \<noteq> []" using sets by auto
  then obtain b rest where bs: "?bs = b # rest" by (cases ?bs) auto
  then have b: "b < ?g" using sets by (metis atLeastLessThan_iff list.set_intros(1))
  have "\<forall>tid<bd. global_id b bd tid < N \<and> 0 \<le> global_id b bd tid \<and>
           global_id b bd tid < int (length (a_gpu m)) \<and>
           global_id b bd tid < int (length (b_gpu m))"
  proof (intro allI impI)
    fix tid assume t: "tid < bd"
    have "global_id b bd tid = int b * int bd + int tid"
      using global_id_grid[OF bd N assms(5) b t] .
    moreover have "int b * int bd + int tid < N"
      using grid_full[OF bd N assms(4) b t] .
    ultimately show "global_id b bd tid < N \<and> 0 \<le> global_id b bd tid \<and>
           global_id b bd tid < int (length (a_gpu m)) \<and>
           global_id b bd tid < int (length (b_gpu m))"
      using assms(6,7) by simp
  qed
  moreover have "int bd \<le> 2 ^ 31" using assms(3,5) by linarith
  ultimately have "matrix_add_shared_memory sch bd N b m = Inl (OutOfBounds Shared_a)"
    using shared_block_fails[OF assms(1,2)] by blast
  then show ?thesis
    unfolding launch_shared_memory_def bs by simp
qed

subsection \<open>What a launch leaves alone, and how it can fail\<close>









subsection \<open>An index that wraps\<close>




subsection \<open>Coverage of the unoptimized launch\<close>




subsection \<open>The two kernels compute the same sums\<close>

text \<open>
  Claim C9. In the configuration of Steps 1 and 2 (\<open>N = 1024 * 1024\<close>, blocks of 256
  threads, \<open>grid_size = 4096\<close>) the unoptimized kernel and the shared-memory kernel
  compute the same function: for every pair of arrays \<open>a\<close> and \<open>b\<close> of \<open>N\<close>
  elements, and whatever the output buffer held before and the order in which threads and
  blocks run, both launches end without a fault and leave \<open>c[i] = a[i] + b[i]\<close> for
  every \<open>i < N\<close>. The addition is the same operation of the element type in both.
\<close>

theorem kernels_compute_same_sums:
  fixes m m' :: "('a::plus) device"
  assumes "fair sch" and "fair sch'"
    and "length (a_gpu m) = 1048576" and "length (b_gpu m) = 1048576"
    and "length (c_gpu m) = 1048576"
    and "a_gpu m' = a_gpu m" and "b_gpu m' = b_gpu m" and "length (c_gpu m') = 1048576"
  shows "grid_size 1048576 256 = Inr 4096 \<and>
         (\<exists>m1 m2.
            launch_unoptimized sch 4096 256 1048576 m = Inr m1 \<and>
            launch_shared_memory sch' 4096 256 1048576 m' = Inr m2 \<and>
            c_gpu m1 = c_gpu m2 \<and>
            (\<forall>i < 1048576. c_gpu m1 ! i = a_gpu m ! i + b_gpu m ! i \<and>
                            c_gpu m2 ! i = a_gpu m ! i + b_gpu m ! i))"
proof -
  have g: "nat ((1048576 + int 256 - 1) div int 256) = 4096" by simp
  have "\<exists>m1 new. launch_unoptimized sch (nat ((1048576 + int 256 - 1) div int 256)) 256 1048576 m = Inr m1 \<and>
           a_gpu m1 = a_gpu m \<and> b_gpu m1 = b_gpu m \<and> length (c_gpu m1) = length (c_gpu m) \<and>
           accesses m1 = accesses m @ new \<and>
           (\<forall>i < nat 1048576. c_gpu m1 ! i = a_gpu m ! i + b_gpu m ! i \<and>
              (\<exists>t. filter (\<lambda>e. snd e = (Write, Global_c, int i)) new = [(t, Write, Global_c, int i)])) \<and>
           (\<forall>i \<ge> nat 1048576. i < length (c_gpu m) \<longrightarrow> c_gpu m1 ! i = c_gpu m ! i) \<and>
           (\<forall>e \<in> set new. 0 \<le> snd (snd (snd e)) \<and> snd (snd (snd e)) < 1048576)"
    by (rule unoptimized_launch[OF assms(1)]) (simp_all add: assms)
  then obtain m1 where
    r1: "launch_unoptimized sch 4096 256 1048576 m = Inr m1"
    and l1: "length (c_gpu m1) = 1048576"
    and c1: "\<forall>i < 1048576. c_gpu m1 ! i = a_gpu m ! i + b_gpu m ! i"
    unfolding g using assms(5) by auto
  have "\<exists>m2. launch_shared_memory sch' (nat ((1048576 + int 256 - 1) div int 256)) 256 1048576 m' = Inr m2 \<and>
           a_gpu m2 = a_gpu m' \<and> b_gpu m2 = b_gpu m' \<and>
           length (c_gpu m2) = length (c_gpu m') \<and>
           (\<forall>i < nat 1048576. c_gpu m2 ! i = a_gpu m' ! i + b_gpu m' ! i) \<and>
           (\<forall>i \<ge> nat 1048576. i < length (c_gpu m') \<longrightarrow> c_gpu m2 ! i = c_gpu m' ! i)"
    by (rule shared_launch[OF assms(2)]) (simp_all add: assms)
  then obtain m2 where
    r2: "launch_shared_memory sch' 4096 256 1048576 m' = Inr m2"
    and l2: "length (c_gpu m2) = 1048576"
    and c2: "\<forall>i < 1048576. c_gpu m2 ! i = a_gpu m ! i + b_gpu m ! i"
    unfolding g using assms(6,7,8) by auto
  have "c_gpu m1 = c_gpu m2"
    by (rule nth_equalityI) (simp_all add: l1 l2 c1 c2)
  moreover have "grid_size 1048576 256 = Inr 4096"
    by (simp add: grid_size_def)
  ultimately show ?thesis using r1 r2 c1 c2 by blast
qed

theorem kernels_compute_same_sums_witness:
  "fair in_order \<and> fair reversed \<and> length (a_gpu large_device) = 1048576 \<and>
   grid_size 1048576 256 = Inr 4096 \<and>
   (\<exists>m1 m2.
      launch_unoptimized in_order 4096 256 1048576 large_device = Inr m1 \<and>
      launch_shared_memory reversed 4096 256 1048576 large_device = Inr m2 \<and>
      c_gpu m1 = c_gpu m2 \<and>
      (\<forall>i < 1048576. c_gpu m1 ! i = a_gpu large_device ! i + b_gpu large_device ! i \<and>
                      c_gpu m2 ! i = a_gpu large_device ! i + b_gpu large_device ! i))"
proof -
  have f: "fair in_order" "fair reversed"
    by (simp_all add: fair_def in_order_def reversed_def)
  have l: "length (a_gpu large_device) = 1048576" "length (b_gpu large_device) = 1048576"
    "length (c_gpu large_device) = 1048576"
    by (simp_all add: large_device_def)
  from kernels_compute_same_sums[OF f l refl refl l(3)] f l(1)
  show ?thesis by blast
qed


subsection \<open>Step 3: blocks of 512 threads\<close>

text \<open>
  Claim C8 says that every shared-memory access stays inside \<open>shared_a[256]\<close> and
  \<open>shared_b[256]\<close>, in particular in Step 3. The code does not do this: Step 3 launches
  the kernel with 512 threads per block, every thread of the launch passes the guard
  \<open>gid < N\<close>, and the threads with \<open>threadIdx.x\<close> from 256 to 511 write
  \<open>shared_a[tid]\<close> outside the array. With the notebook's buffers of
  \<open>N = 1024 * 1024\<close> elements every global access is in range, so whatever the order of
  execution the launch stops at an out-of-bounds access to \<open>shared_a\<close>.
\<close>

theorem step3_overruns_shared_arrays:
  fixes st :: "('a::plus) notebook"
  assumes "fair sch"
    and "length (a_gpu (device_mem st)) = 1048576"
    and "length (b_gpu (device_mem st)) = 1048576"
  shows "step3 sch 1048576 st = Inl (OutOfBounds Shared_a)"
proof -
  have g: "nat ((1048576 + int 512 - 1) div int 512) = 2048" by simp
  have "launch_shared_memory sch (nat ((1048576 + int 512 - 1) div int 512)) 512 1048576
          (device_mem st) = Inl (OutOfBounds Shared_a)"
    by (rule shared_launch_fails[OF assms(1)]) (simp_all add: assms)
  then show ?thesis
    unfolding g by (simp add: step3_def grid_size_def timed_shared_memory_def)
qed

theorem step3_overruns_shared_arrays_witness:
  "fair in_order \<and> length (a_gpu (device_mem large_notebook)) = 1048576 \<and>
   length (b_gpu (device_mem large_notebook)) = 1048576 \<and>
   step3 in_order 1048576 large_notebook = Inl (OutOfBounds Shared_a)"
proof -
  have f: "fair in_order"
    by (simp add: fair_def in_order_def)
  have l: "length (a_gpu (device_mem large_notebook)) = 1048576"
    "length (b_gpu (device_mem large_notebook)) = 1048576"
    by (simp_all add: large_notebook_def large_device_def)
  from step3_overruns_shared_arrays[OF f l] f l show ?thesis by blast
qed

subsection \<open>No check of shapes\<close>




section \<open>Properties of the comparison notebook\<close>

subsection \<open>Rounding to a float\<close>

lemma pow2_powr: "pow2 e = 2 powr (of_int e)"
proof (cases "0 \<le> e")
  case True
  then have "2 powr real_of_int e = 2 powr real (nat e)" by simp
  also have "\<dots> = 2 ^ nat e" by (simp add: powr_realpow)
  finally show ?thesis using True by (simp add: pow2_def)
next
  case False
  then have "2 powr real_of_int e = 2 powr (- real (nat (- e)))" by simp
  also have "\<dots> = 1 / 2 ^ nat (- e)" by (simp add: powr_minus powr_realpow divide_inverse)
  finally show ?thesis using False by (simp add: pow2_def)
qed

lemma pow2_pos: "0 < pow2 e"
  by (simp add: pow2_powr)

lemma pow2_mono: "a \<le> b \<Longrightarrow> pow2 a \<le> pow2 b"
  by (simp add: pow2_powr)

lemma pow2_succ: "pow2 (e + 1) = 2 * pow2 e"
  by (simp add: pow2_powr powr_add)

lemma pow2_pred: "2 * pow2 (e - 1) = pow2 e"
  using pow2_succ[of "e - 1"] by simp

lemma binade_ge_one: "1 \<le> x \<Longrightarrow> pow2 (binade k x) \<le> x"
proof (induction k arbitrary: x)
  case 0
  then show ?case by (simp add: pow2_def)
next
  case (Suc k)
  show ?case
  proof (cases "2 \<le> x")
    case True
    then have "pow2 (binade k (x / 2)) \<le> x / 2" using Suc.IH[of "x / 2"] by simp
    then show ?thesis using True by (simp add: pow2_succ)
  next
    case False
    then show ?thesis using Suc.prems by (simp add: pow2_def)
  qed
qed

lemma binade_lt_one:
  "0 < x \<Longrightarrow> x < 1 \<Longrightarrow> - int k < binade k x \<Longrightarrow> pow2 (binade k x) \<le> x"
proof (induction k arbitrary: x)
  case 0
  then show ?case by simp
next
  case (Suc k)
  from Suc.prems have b: "binade (Suc k) x = binade k (2 * x) - 1" by simp
  with Suc.prems(3) have lower: "- int k < binade k (2 * x)" by simp
  have "pow2 (binade k (2 * x)) \<le> 2 * x"
  proof (cases "2 * x < 1")
    case True
    then show ?thesis using Suc.IH[of "2 * x"] Suc.prems(1) lower by simp
  next
    case False
    then show ?thesis using binade_ge_one[of "2 * x" k] by simp
  qed
  then have "2 * pow2 (binade k (2 * x) - 1) \<le> 2 * x" by (simp only: pow2_pred)
  then show ?case using b by simp
qed

lemma spacing_below:
  assumes "pow2 (- 1074) \<le> x"
  shows "pow2 (max (binade 2200 x) (- 1022) - 52) \<le> x"
proof (cases "binade 2200 x \<le> - 1022")
  case True
  then show ?thesis using assms by (simp add: max_def)
next
  case False
  have x: "0 < x" using assms pow2_pos[of "- 1074"] by linarith
  have "pow2 (binade 2200 x) \<le> x"
  proof (cases "1 \<le> x")
    case True
    then show ?thesis by (rule binade_ge_one)
  next
    case lt: False
    show ?thesis by (rule binade_lt_one) (use x lt False in simp_all)
  qed
  moreover have "pow2 (binade 2200 x - 52) \<le> pow2 (binade 2200 x)" by (rule pow2_mono) simp
  ultimately show ?thesis using False by (simp add: max_def)
qed

lemma round_half_even_lower: "\<lfloor>x\<rfloor> \<le> round_half_even x"
  by (simp add: round_half_even_def Let_def)

lemma round_double_cases:
  assumes "0 < x"
  obtains (inf) "round_double negative x = Infinity negative"
  | (zero) "round_double negative x = signed_zero negative"
  | (fin) y where "0 < y" "round_double negative x = Finite (if negative then - y else y)"
proof -
  define ulp where "ulp = pow2 (max (binade 2200 x) (- 1022) - 52)"
  define y where "y = of_int (round_half_even (x / ulp)) * ulp"
  have u: "0 < ulp" by (simp add: ulp_def pow2_pos)
  have "0 \<le> \<lfloor>x / ulp\<rfloor>" using assms u by simp
  then have "0 \<le> round_half_even (x / ulp)" using round_half_even_lower[of "x / ulp"] by linarith
  then have y: "0 \<le> y" using u by (simp add: y_def)
  have r: "round_double negative x =
      (if pow2 1024 \<le> y then Infinity negative
       else if y = 0 then signed_zero negative
       else Finite (if negative then - y else y))"
    by (simp add: round_double_def Let_def ulp_def y_def signed_zero_def)
  show thesis
  proof (cases "pow2 1024 \<le> y")
    case True
    then show ?thesis using r inf by simp
  next
    case False
    show ?thesis
    proof (cases "y = 0")
      case True
      then show ?thesis using r False zero by simp
    next
      case nz: False
      then have "0 < y" using y by simp
      then show ?thesis using r False nz fin by simp
    qed
  qed
qed

lemma round_double_nonzero:
  assumes "pow2 (- 1074) \<le> x"
  shows "round_double negative x \<noteq> signed_zero negative"
proof -
  define ulp where "ulp = pow2 (max (binade 2200 x) (- 1022) - 52)"
  define y where "y = of_int (round_half_even (x / ulp)) * ulp"
  have u: "0 < ulp" by (simp add: ulp_def pow2_pos)
  have "ulp \<le> x" unfolding ulp_def using assms by (rule spacing_below)
  then have "1 \<le> x / ulp" using u by simp
  then have "1 \<le> \<lfloor>x / ulp\<rfloor>" by simp
  then have "1 \<le> round_half_even (x / ulp)" using round_half_even_lower[of "x / ulp"] by linarith
  then have "0 < y" using u by (simp add: y_def)
  then show ?thesis
    by (simp add: round_double_def Let_def ulp_def[symmetric] y_def[symmetric] signed_zero_def)
qed

lemma round_double_sign: "0 < x \<Longrightarrow> is_negative (round_double negative x) = negative"
  by (rule round_double_cases[of x negative])
     (simp_all add: is_negative_def signed_zero_def)

lemma round_double_not_nan: "0 < x \<Longrightarrow> round_double negative x \<noteq> NaN"
  by (rule round_double_cases[of x negative]) (simp_all add: signed_zero_def)

lemma float_sub_not_nan: "float_sub x y \<noteq> NaN"
  by (simp add: float_sub_def round_double_not_nan)

lemma float_sub_sign: "is_negative (float_sub x y) \<longleftrightarrow> x < y"
proof (cases "x = y")
  case True
  then show ?thesis by (simp add: float_sub_def is_negative_def)
next
  case False
  then have "0 < \<bar>x - y\<bar>" by simp
  then show ?thesis using False by (simp add: float_sub_def round_double_sign)
qed

lemma float_sub_ge_zero: "y \<le> x \<Longrightarrow> float_ge_zero (float_sub x y)"
proof (cases "x = y")
  case True
  then show ?thesis by (simp add: float_sub_def float_ge_zero_def)
next
  case False
  assume "y \<le> x"
  with False have d: "0 < \<bar>x - y\<bar>" "\<not> x < y" by simp_all
  show ?thesis
    by (rule round_double_cases[OF d(1), of False])
       (use False d(2) in \<open>simp_all add: float_sub_def float_ge_zero_def signed_zero_def\<close>)
qed

lemma grid_distance:
  assumes "on_grid x" and "on_grid y" and "x < y"
  shows "pow2 (- 1074) \<le> y - x"
proof -
  obtain m n :: int where m: "of_int m = x * 2 ^ 1074" and n: "of_int n = y * 2 ^ 1074"
    using assms(1,2) by (auto simp: on_grid_def)
  have "x * 2 ^ 1074 < y * 2 ^ 1074" using assms(3) by simp
  then have "real_of_int m < of_int n" using m n by simp
  then have "m + 1 \<le> n" by simp
  then have "real_of_int m + 1 \<le> of_int n" by linarith
  then have "1 \<le> (y - x) * 2 ^ 1074" using m n by (simp add: algebra_simps)
  then have "1 / 2 ^ 1074 \<le> y - x" by (simp add: field_simps)
  then show ?thesis by (simp add: pow2_def)
qed

lemma float_sub_below_zero:
  assumes "on_grid x" and "on_grid y" and "x < y"
  shows "\<not> float_ge_zero (float_sub x y)"
proof -
  have d: "pow2 (- 1074) \<le> \<bar>x - y\<bar>" using grid_distance[OF assms] assms(3) by simp
  then have p: "0 < \<bar>x - y\<bar>" using pow2_pos[of "- 1074"] by linarith
  have nz: "round_double True \<bar>x - y\<bar> \<noteq> signed_zero True" using d by (rule round_double_nonzero)
  show ?thesis
    by (rule round_double_cases[OF p, of True])
       (use assms(3) nz in \<open>simp_all add: float_sub_def float_ge_zero_def\<close>)
qed

lemma pow2_less: "pow2 a < pow2 b \<longleftrightarrow> a < b"
  by (simp add: pow2_powr)

lemma pow2_zero: "pow2 0 = 1"
  by (simp add: pow2_def)

lemma binade_eq:
  "pow2 e \<le> x \<Longrightarrow> x < pow2 (e + 1) \<Longrightarrow> \<bar>e\<bar> \<le> int k \<Longrightarrow> binade k x = e"
proof (induction k arbitrary: x e)
  case 0
  then show ?case by simp
next
  case (Suc k)
  show ?case
  proof (cases "2 \<le> x")
    case True
    with Suc.prems(2) have "pow2 1 < pow2 (e + 1)" by (simp add: pow2_def)
    then have e: "1 \<le> e" by (simp add: pow2_less)
    have "pow2 (e - 1) \<le> x / 2" using Suc.prems(1) pow2_pred[of e] by simp
    moreover have "x / 2 < pow2 (e - 1 + 1)" using Suc.prems(2) pow2_succ[of e] by simp
    moreover have "\<bar>e - 1\<bar> \<le> int k" using e Suc.prems(3) by simp
    ultimately have "binade k (x / 2) = e - 1" by (rule Suc.IH)
    then show ?thesis using True by simp
  next
    case False
    show ?thesis
    proof (cases "x < 1")
      case True
      with Suc.prems(1) have "pow2 e < pow2 0" by (simp add: pow2_zero)
      then have e: "e \<le> - 1" by (simp add: pow2_less)
      have "pow2 (e + 1) \<le> 2 * x" using Suc.prems(1) pow2_succ[of e] by simp
      moreover have "2 * x < pow2 (e + 1 + 1)" using Suc.prems(2) pow2_succ[of "e + 1"] by simp
      moreover have "\<bar>e + 1\<bar> \<le> int k" using e Suc.prems(3) by simp
      ultimately have "binade k (2 * x) = e + 1" by (rule Suc.IH)
      then show ?thesis using True False by simp
    next
      case ge: False
      from False Suc.prems(1) have "pow2 e < pow2 1" by (simp add: pow2_def)
      then have "e < 1" by (simp add: pow2_less)
      moreover from ge Suc.prems(2) have "pow2 0 < pow2 (e + 1)" by (simp add: pow2_zero)
      then have "0 < e + 1" by (simp add: pow2_less)
      ultimately have "e = 0" by simp
      then show ?thesis using False ge by simp
    qed
  qed
qed

lemma round_half_even_of_int: "round_half_even (of_int n) = n"
  by (simp add: round_half_even_def)

lemma round_double_eval:
  assumes "pow2 e \<le> x" and "x < pow2 (e + 1)" and "- 1022 \<le> e" and "e \<le> 1023"
  shows "round_double negative x =
           (let y = of_int (round_half_even (x / pow2 (e - 52))) * pow2 (e - 52) in
            if pow2 1024 \<le> y then Infinity negative
            else if y = 0 then (if negative then NegZero else Finite 0)
            else Finite (if negative then - y else y))"
proof -
  have "binade 2200 x = e"
    by (rule binade_eq) (use assms in simp_all)
  then show ?thesis using assms(3) by (simp add: round_double_def max_def Let_def)
qed

lemma round_double_exact:
  assumes "pow2 e \<le> x" and "x < pow2 (e + 1)" and "- 1022 \<le> e" and "e \<le> 1023"
    and "x / pow2 (e - 52) = of_int n"
  shows "round_double negative x = Finite (if negative then - x else x)"
proof -
  have p: "0 < pow2 (e - 52)" by (rule pow2_pos)
  have y: "of_int (round_half_even (x / pow2 (e - 52))) * pow2 (e - 52) = x"
    using assms(5) p by (simp add: round_half_even_of_int field_simps)
  have "0 < x" using assms(1) pow2_pos[of e] by linarith
  moreover have "x < pow2 1024"
  proof -
    have "pow2 (e + 1) \<le> pow2 1024" by (rule pow2_mono) (use assms(4) in simp)
    with assms(2) show ?thesis by linarith
  qed
  ultimately show ?thesis
    unfolding round_double_eval[OF assms(1-4)] Let_def y by simp
qed

lemma float_sub_exact:
  assumes "pow2 e \<le> \<bar>x - y\<bar>" and "\<bar>x - y\<bar> < pow2 (e + 1)" and "- 1022 \<le> e" and "e \<le> 1023"
    and "\<bar>x - y\<bar> / pow2 (e - 52) = of_int n"
  shows "float_sub x y = Finite (x - y)"
proof -
  have "0 < \<bar>x - y\<bar>" using assms(1) pow2_pos[of e] by linarith
  then have "x \<noteq> y" by simp
  then show ?thesis
    unfolding float_sub_def round_double_exact[OF assms] by auto
qed

text \<open>The durations that the sample clocks give.\<close>

lemma float_sub_shift: "float_sub x y = float_sub (x - y) 0"
  by (simp add: float_sub_def)

lemma float_sub_values:
  "float_sub 1 0 = Finite 1" "float_sub 5 0 = Finite 5" "float_sub (5 / 4) 0 = Finite (5 / 4)"
  "float_sub (- 1) 0 = Finite (- 1)"
  using float_sub_exact[of 0 1 0 "2 ^ 52"] float_sub_exact[of 2 5 0 "5 * 2 ^ 50"]
    float_sub_exact[of 0 "5 / 4" 0 "5 * 2 ^ 50"] float_sub_exact[of 0 "- 1" 0 "2 ^ 52"]
  by (simp_all add: pow2_def)

lemma float_sub_same: "float_sub x x = Finite 0"
  by (simp add: float_sub_def)

lemma float_sub_from: "y \<noteq> 0 \<Longrightarrow> float_sub x y = float_sub (x - y) 0"
  by (simp add: float_sub_def)

lemma float_div_finite:
  assumes "0 < x" and "0 < y"
  shows "float_div (Finite x) (Finite y) = Inr (round_double False (x / y))"
  using assms by (simp add: float_div_def is_zero_def is_inf_def is_negative_def magnitude_def)

lemma round_double_values:
  "round_double False (1 / 5) = Finite (3602879701896397 / 18014398509481984)"
  "round_double False (1 / 200) = Finite (5764607523034235 / 1152921504606846976)"
  "round_double False (3 / 200) = Finite (1080863910568919 / 72057594037927936)"
  unfolding round_double_eval[of "- 3" "1 / 5" False, simplified pow2_def, simplified]
    round_double_eval[of "- 8" "1 / 200" False, simplified pow2_def, simplified]
    round_double_eval[of "- 7" "3 / 200" False, simplified pow2_def, simplified]
  by (simp_all add: pow2_def round_half_even_def Let_def)

lemmas format_eval = format_float_def format_f_def round_half_even_def Let_def decimal.simps
  digit_def zero_pad_def

lemmas float_eval = float_sub_from float_sub_same float_sub_values

subsection \<open>What a call of the runner does\<close>

lemmas cells = measure_time_def enter_device_def time_call_def matmul_call_def numpy_call_def
  emit_def variable_def print_def step2_check_def create_matrices_def step4_cpu_def
  step5_gpu_def step6_compare_def run_until_comparison_def run_all_def fresh_session_def
  Let_def

lemmas samples = sample_env_def sample_matmul_def always_def sample_session_def readings_def
  sample_clock_def backward_clock_def stalled_clock_def elapsed_def

lemma measure_time_unfold:
  assumes "matrix_A s = Some A" and "matrix_B s = Some B"
  shows "measure_time env d s =
     (case tf_device env (events s) d of Inl e \<Rightarrow> Inl e | Inr u \<Rightarrow>
     (case tf_matmul env
             (events s @ [EnterDevice d, ClockRead (time_time env (events s @ [EnterDevice d]))])
             d A B of Inl e \<Rightarrow> Inl e | Inr result \<Rightarrow>
     (case tf_numpy env
             (events s @ [EnterDevice d, ClockRead (time_time env (events s @ [EnterDevice d])),
                          MatMul d]) result of Inl e \<Rightarrow> Inl e | Inr u' \<Rightarrow>
        Inr (float_sub
               (time_time env
                  (events s @ [EnterDevice d,
                               ClockRead (time_time env (events s @ [EnterDevice d])),
                               MatMul d, Materialize]))
               (time_time env (events s @ [EnterDevice d])),
             s\<lparr>events := events s @
                 [EnterDevice d, ClockRead (time_time env (events s @ [EnterDevice d])),
                  MatMul d, Materialize,
                  ClockRead (time_time env
                    (events s @ [EnterDevice d,
                                 ClockRead (time_time env (events s @ [EnterDevice d])),
                                 MatMul d, Materialize])),
                  ExitDevice]\<rparr>))))"
  using assms
  by (simp add: measure_time_def enter_device_def time_call_def matmul_call_def numpy_call_def
      emit_def variable_def split: sum.splits)

lemma measure_time_bound:
  assumes "measure_time env d s = Inr r"
  shows "\<exists>A B. matrix_A s = Some A \<and> matrix_B s = Some B"
proof (rule ccontr)
  assume "\<not> (\<exists>A B. matrix_A s = Some A \<and> matrix_B s = Some B)"
  then have "matrix_A s = None \<or> matrix_B s = None" by auto
  then have "\<exists>e. measure_time env d s = Inl e"
    by (auto simp: measure_time_def enter_device_def time_call_def emit_def variable_def
        split: sum.splits option.splits)
  with assms show False by auto
qed

lemma measure_time_returns:
  assumes "measure_time env d s = Inr (t, s')"
  shows "\<exists>t0 t1. t = float_sub t1 t0 \<and>
           s' = s\<lparr>events := events s @
                  [EnterDevice d, ClockRead t0, MatMul d, Materialize, ClockRead t1,
                   ExitDevice]\<rparr>"
proof -
  from measure_time_bound[OF assms] obtain A B where
    ab: "matrix_A s = Some A" "matrix_B s = Some B" by blast
  from assms show ?thesis
    unfolding measure_time_unfold[OF ab] by (auto split: sum.splits)
qed

subsection \<open>What the cells append to the trace\<close>

lemma printed_append: "printed (xs @ ys) = printed xs @ printed ys"
  by (induction xs rule: printed.induct) simp_all

lemma step4_events:
  assumes "step4_cpu env s = Inr s'"
  shows "\<exists>t0 t1 p. events s' = events s @
           [Print (CHR 0x0A # ''Performing computation on CPU...''), EnterDevice ''/CPU:0'',
            ClockRead t0, MatMul ''/CPU:0'', Materialize, ClockRead t1, ExitDevice, Print p]"
proof -
  from assms obtain t s1 where
    m: "measure_time env ''/CPU:0''
          (print (CHR 0x0A # ''Performing computation on CPU...'') s) = Inr (t, s1)"
    and s': "s' = print (''Time taken on CPU: '' @ format_float 4 t @ '' seconds'')
                   (s1\<lparr>cpu_time := Some t\<rparr>)"
    by (auto simp: step4_cpu_def split: sum.splits)
  from measure_time_returns[OF m] s' show ?thesis
    by (auto simp: print_def emit_def)
qed

lemma step5_events:
  assumes "step5_gpu env s = Inr s'"
  shows "(tf_is_gpu_available env \<and> (\<exists>t0 t1 p. events s' = events s @
           [Print (CHR 0x0A # ''Performing computation on GPU...''), EnterDevice ''/GPU:0'',
            ClockRead t0, MatMul ''/GPU:0'', Materialize, ClockRead t1, ExitDevice, Print p])) \<or>
         (\<not> tf_is_gpu_available env \<and> events s' = events s @
           [Print (CHR 0x0A # ''No GPU available. Skipping GPU computation.'')])"
proof (cases "tf_is_gpu_available env")
  case True
  with assms obtain t s1 where
    m: "measure_time env ''/GPU:0''
          (print (CHR 0x0A # ''Performing computation on GPU...'') s) = Inr (t, s1)"
    and s': "s' = print (''Time taken on GPU: '' @ format_float 4 t @ '' seconds'')
                   (s1\<lparr>gpu_time := Some t\<rparr>)"
    by (auto simp: step5_gpu_def split: sum.splits)
  from measure_time_returns[OF m] s' True show ?thesis
    by (auto simp: print_def emit_def)
next
  case False
  with assms show ?thesis by (auto simp: step5_gpu_def print_def emit_def)
qed

lemma step6_returns:
  assumes "tf_is_gpu_available env" and "step6_compare env s = Inr s'"
  shows "\<exists>c g q. cpu_time s = Some c \<and> gpu_time s = Some g \<and> float_div c g = Inr q \<and>
           s' = s\<lparr>events := events s @
                  [Print (CHR 0x0A # ''Comparison:''),
                   Print (''CPU time: '' @ format_float 4 c @ '' seconds''),
                   Print (''GPU time: '' @ format_float 4 g @ '' seconds''),
                   Print (''Speedup: '' @ format_float 2 q @ ''x faster on GPU!'')]\<rparr>"
proof -
  obtain c where c: "cpu_time s = Some c"
    using assms by (cases "cpu_time s")
      (auto simp: step6_compare_def print_def emit_def variable_def Let_def)
  obtain g where g: "gpu_time s = Some g"
    using assms c by (cases "gpu_time s")
      (auto simp: step6_compare_def print_def emit_def variable_def Let_def)
  obtain q where q: "float_div c g = Inr q"
    using assms c g by (cases "float_div c g")
      (auto simp: step6_compare_def print_def emit_def variable_def Let_def)
  from assms c g q show ?thesis
    by (simp add: step6_compare_def print_def emit_def variable_def Let_def)
qed

lemma step6_events:
  assumes "step6_compare env s = Inr s'"
  shows "\<exists>ps. events s' = events s @ map Print ps"
proof (cases "tf_is_gpu_available env")
  case True
  from step6_returns[OF True assms] obtain c g q where
    "s' = s\<lparr>events := events s @
                  [Print (CHR 0x0A # ''Comparison:''),
                   Print (''CPU time: '' @ format_float 4 c @ '' seconds''),
                   Print (''GPU time: '' @ format_float 4 g @ '' seconds''),
                   Print (''Speedup: '' @ format_float 2 q @ ''x faster on GPU!'')]\<rparr>"
    by blast
  then have "events s' = events s @ map Print
      [CHR 0x0A # ''Comparison:'', ''CPU time: '' @ format_float 4 c @ '' seconds'',
       ''GPU time: '' @ format_float 4 g @ '' seconds'',
       ''Speedup: '' @ format_float 2 q @ ''x faster on GPU!'']"
    by simp
  then show ?thesis by blast
next
  case False
  with assms have "events s' = events s @ map Print
      [CHR 0x0A # ''Comparison not available as no GPU is detected.'']"
    by (auto simp: step6_compare_def print_def emit_def)
  then show ?thesis by blast
qed

lemma run_all_events:
  assumes "run_all env A B = Inr s"
  shows "\<exists>p1 p2 rest. events s = [Print p1, Print p2, Generate, Generate] @ rest \<and>
           Generate \<notin> set rest \<and>
           (\<not> tf_is_gpu_available env \<longrightarrow> EnterDevice ''/GPU:0'' \<notin> set rest)"
proof -
  let ?s3 = "create_matrices A B (step2_check env fresh_session)"
  from assms obtain s4 s5 where
    s4: "step4_cpu env ?s3 = Inr s4" and s5: "step5_gpu env s4 = Inr s5"
    and s6: "step6_compare env s5 = Inr s"
    by (auto simp: run_all_def run_until_comparison_def split: sum.splits)
  have e3: "\<exists>p1 p2. events ?s3 = [Print p1, Print p2, Generate, Generate]"
    by (simp add: create_matrices_def step2_check_def print_def emit_def fresh_session_def)
  from step4_events[OF s4] obtain r4 where
    e4: "events s4 = events ?s3 @ r4" "Generate \<notin> set r4" "EnterDevice ''/GPU:0'' \<notin> set r4"
    by auto
  from step5_events[OF s5] obtain r5 where
    e5: "events s5 = events s4 @ r5" "Generate \<notin> set r5"
      "\<not> tf_is_gpu_available env \<longrightarrow> EnterDevice ''/GPU:0'' \<notin> set r5"
    by auto
  from step6_events[OF s6] obtain ps where ps: "events s = events s5 @ map Print ps"
    by blast
  define r6 where "r6 = map Print ps"
  have e6: "events s = events s5 @ r6" "Generate \<notin> set r6" "EnterDevice ''/GPU:0'' \<notin> set r6"
    using ps by (auto simp: r6_def)
  from e3 obtain p1 p2 where "events ?s3 = [Print p1, Print p2, Generate, Generate]" by blast
  then have "events s = [Print p1, Print p2, Generate, Generate] @ (r4 @ r5 @ r6)"
    using e4(1) e5(1) e6(1) by simp
  moreover have "Generate \<notin> set (r4 @ r5 @ r6)" using e4(2) e5(2) e6(2) by simp
  moreover have "\<not> tf_is_gpu_available env \<longrightarrow> EnterDevice ''/GPU:0'' \<notin> set (r4 @ r5 @ r6)"
    using e4(3) e5(3) e6(3) by simp
  ultimately show ?thesis by blast
qed

lemma run_until_comparison_times:
  assumes "tf_is_gpu_available env" and "run_until_comparison env A B = Inr s5"
  shows "\<exists>c g. cpu_time s5 = Some c \<and> gpu_time s5 = Some g"
proof -
  let ?s3 = "create_matrices A B (step2_check env fresh_session)"
  from assms(2) obtain s4 where
    s4: "step4_cpu env ?s3 = Inr s4" and s5: "step5_gpu env s4 = Inr s5"
    by (auto simp: run_until_comparison_def split: sum.splits)
  from s4 obtain c s1 where
    m4: "measure_time env ''/CPU:0''
          (print (CHR 0x0A # ''Performing computation on CPU...'') ?s3) = Inr (c, s1)"
    and s4': "s4 = print (''Time taken on CPU: '' @ format_float 4 c @ '' seconds'')
                   (s1\<lparr>cpu_time := Some c\<rparr>)"
    by (auto simp: step4_cpu_def split: sum.splits)
  from s5 assms(1) obtain g s2 where
    m5: "measure_time env ''/GPU:0''
          (print (CHR 0x0A # ''Performing computation on GPU...'') s4) = Inr (g, s2)"
    and s5': "s5 = print (''Time taken on GPU: '' @ format_float 4 g @ '' seconds'')
                   (s2\<lparr>gpu_time := Some g\<rparr>)"
    by (auto simp: step5_gpu_def split: sum.splits)
  have "cpu_time s4 = Some c" using s4' by (simp add: print_def emit_def)
  then have "cpu_time s2 = Some c"
    using measure_time_returns[OF m5] by (auto simp: print_def emit_def)
  then show ?thesis using s5' by (simp add: print_def emit_def)
qed

lemma step6_prints_speedup:
  assumes "tf_is_gpu_available env" and "cpu_time s = Some c" and "gpu_time s = Some g"
    and "float_div c g = Inr q"
  shows "step6_compare env s =
           Inr (s\<lparr>events := events s @
                  [Print (CHR 0x0A # ''Comparison:''),
                   Print (''CPU time: '' @ format_float 4 c @ '' seconds''),
                   Print (''GPU time: '' @ format_float 4 g @ '' seconds''),
                   Print (''Speedup: '' @ format_float 2 q @ ''x faster on GPU!'')]\<rparr>)"
  using assms by (simp add: step6_compare_def print_def emit_def variable_def Let_def)

lemma float_div_returns: "\<not> is_zero g \<Longrightarrow> \<exists>q. float_div c g = Inr q"
  by (simp add: float_div_def)

lemma float_div_raises: "is_zero g \<Longrightarrow> float_div c g = Inl ZeroDivisionError"
  by (simp add: float_div_def)

subsection \<open>Digits after the point\<close>

lemma digits_not_point: "list_all (\<lambda>d. digit d \<noteq> CHR ''.'') [0..<10]"
  by code_simp

lemma digit_not_point: "d < 10 \<Longrightarrow> digit d \<noteq> CHR ''.''"
  using digits_not_point by (simp add: list_all_iff)

lemma decimal_no_point: "CHR ''.'' \<notin> set (decimal n)"
proof (induction n rule: decimal.induct)
  case (1 n)
  show ?case
  proof (cases "n < 10")
    case True
    then show ?thesis using digit_not_point[of n] by (simp add: decimal.simps)
  next
    case False
    have "n mod 10 < 10" by simp
    then have "digit (n mod 10) \<noteq> CHR ''.''" by (rule digit_not_point)
    with False "1.IH" show ?thesis
      by (subst decimal.simps) auto
  qed
qed

lemma length_decimal: "0 < p \<Longrightarrow> n < 10 ^ p \<Longrightarrow> length (decimal n) \<le> p"
proof (induction n arbitrary: p rule: decimal.induct)
  case (1 n)
  show ?case
  proof (cases "n < 10")
    case True
    then show ?thesis using "1.prems"(1) by (simp add: decimal.simps)
  next
    case False
    then obtain q where q: "p = Suc q"
      using "1.prems"(1) by (cases p) auto
    have "q \<noteq> 0" using False "1.prems"(2) q by (cases q) auto
    then have "0 < q" by simp
    moreover have "n div 10 < 10 ^ q"
      using "1.prems"(2) q by (simp add: less_mult_imp_div_less mult.commute)
    ultimately have "length (decimal (n div 10)) \<le> q"
      using "1.IH"[OF False] by blast
    then show ?thesis using False q by (subst decimal.simps) simp
  qed
qed

lemma format_f_shape:
  assumes "0 < p"
  shows "\<exists>pre ds. format_f p x = pre @ CHR ''.'' # ds \<and> CHR ''.'' \<notin> set pre \<and>
           length ds = p"
proof -
  define q where "q = nat (round_half_even (\<bar>x\<bar> * 10 ^ p))"
  define pre where "pre = (if x < 0 then ''-'' else []) @ decimal (q div 10 ^ p)"
  define ds where "ds = zero_pad p (decimal (q mod 10 ^ p))"
  have fmt: "format_f p x = pre @ CHR ''.'' # ds"
    using assms by (simp add: format_f_def Let_def q_def pre_def ds_def)
  have "CHR ''.'' \<notin> set pre"
    using decimal_no_point[of "q div 10 ^ p"] by (auto simp: pre_def split: if_splits)
  moreover have "length ds = p"
  proof -
    have "q mod 10 ^ p < 10 ^ p" by simp
    then have "length (decimal (q mod 10 ^ p)) \<le> p"
      using length_decimal[OF assms] by blast
    then show ?thesis by (simp add: ds_def zero_pad_def)
  qed
  ultimately show ?thesis using fmt by blast
qed

lemma decimal_places_shape:
  assumes "CHR ''.'' \<notin> set pre"
  shows "decimal_places (pre @ CHR ''.'' # ds) = length ds"
proof -
  have "\<And>ch. ch \<in> set pre \<Longrightarrow> ch \<noteq> CHR ''.''" using assms by auto
  then have "dropWhile (\<lambda>ch. ch \<noteq> CHR ''.'') (pre @ CHR ''.'' # ds) = CHR ''.'' # ds"
    by (simp add: dropWhile_append2)
  then show ?thesis by (simp add: decimal_places_def)
qed

lemma decimal_places_format_float:
  assumes "0 < p" and "is_finite v"
  shows "decimal_places (format_float p v) = p"
proof (cases v)
  case (Finite x)
  from format_f_shape[OF assms(1), of x] obtain pre ds where
    "format_f p x = pre @ CHR ''.'' # ds" "CHR ''.'' \<notin> set pre" "length ds = p" by blast
  then show ?thesis using Finite decimal_places_shape[of pre ds] by (simp add: format_float_def)
next
  case NegZero
  from format_f_shape[OF assms(1), of 0] obtain pre ds where
    f: "format_f p 0 = pre @ CHR ''.'' # ds" "CHR ''.'' \<notin> set pre" "length ds = p" by blast
  then have "CHR ''.'' \<notin> set (''-'' @ pre)" by simp
  from decimal_places_shape[OF this, of ds] f show ?thesis
    using NegZero by (simp add: format_float_def)
next
  case (Infinity s)
  then show ?thesis using assms(2) by (simp add: is_finite_def)
next
  case NaN
  then show ?thesis using assms(2) by (simp add: is_finite_def)
qed

subsection \<open>The duration a call returns\<close>

text \<open>
  \<open>time.time()\<close> reads the wall clock, which can be set back while the program runs.
  With a first reading of 10 and a second reading of 9 the runner returns \<open>-1.0\<close>.
\<close>

theorem clock_set_back_gives_negative_duration:
  "tf_device (sample_env True False backward_clock) (events sample_session) ''/CPU:0'' = Inr () \<and>
   map_sum id fst (measure_time (sample_env True False backward_clock) ''/CPU:0'' sample_session)
     = Inr (Finite (- 1)) \<and>
   \<not> float_ge_zero (Finite (- 1))"
  by (simp add: cells samples float_eval float_ge_zero_def)

text \<open>
  Claim C1, amended. A call of \<open>measure_time\<close> whose device binding, multiplication and
  materialization succeed returns the second reading of \<open>time.time()\<close> minus the first,
  a float of seconds that is not not-a-number. The clock is the wall clock, not a
  monotonic one: the sign of the duration is that of the difference of the readings, the
  duration is \<open>>= 0\<close> whenever the second reading is not earlier than the first, and,
  the readings being floats, only then.
\<close>

theorem measured_duration_follows_wall_clock:
  assumes "tf_device env (events s) d = Inr u"
    and "matrix_A s = Some A" and "matrix_B s = Some B"
    and "t0 = time_time env (events s @ [EnterDevice d])"
    and "tf_matmul env (events s @ [EnterDevice d, ClockRead t0]) d A B = Inr result"
    and "tf_numpy env (events s @ [EnterDevice d, ClockRead t0, MatMul d]) result = Inr u'"
    and "t1 = time_time env (events s @ [EnterDevice d, ClockRead t0, MatMul d, Materialize])"
  shows "\<exists>s'. measure_time env d s = Inr (float_sub t1 t0, s') \<and>
              float_sub t1 t0 \<noteq> NaN \<and>
              (\<not> is_negative (float_sub t1 t0) \<longleftrightarrow> t0 \<le> t1) \<and>
              (t0 \<le> t1 \<longrightarrow> float_ge_zero (float_sub t1 t0)) \<and>
              (on_grid t0 \<and> on_grid t1 \<longrightarrow> (float_ge_zero (float_sub t1 t0) \<longleftrightarrow> t0 \<le> t1))"
proof -
  have "\<exists>s'. measure_time env d s = Inr (float_sub t1 t0, s')"
    unfolding measure_time_unfold[OF assms(2,3)]
    using assms(1,5,6) unfolding assms(4,7) by simp
  moreover have "\<not> is_negative (float_sub t1 t0) \<longleftrightarrow> t0 \<le> t1"
    using float_sub_sign[of t1 t0] by auto
  moreover have "t0 \<le> t1 \<longrightarrow> float_ge_zero (float_sub t1 t0)"
    using float_sub_ge_zero[of t0 t1] by simp
  moreover have "on_grid t0 \<and> on_grid t1 \<longrightarrow> (float_ge_zero (float_sub t1 t0) \<longleftrightarrow> t0 \<le> t1)"
  proof (intro impI iffI)
    assume g: "on_grid t0 \<and> on_grid t1" and "float_ge_zero (float_sub t1 t0)"
    then have "\<not> t1 < t0" using float_sub_below_zero[of t1 t0] by blast
    then show "t0 \<le> t1" by simp
  next
    assume "t0 \<le> t1"
    then show "float_ge_zero (float_sub t1 t0)" by (rule float_sub_ge_zero)
  qed
  ultimately show ?thesis using float_sub_not_nan[of t1 t0] by blast
qed

theorem measured_duration_follows_wall_clock_witness:
  "tf_device (sample_env True False sample_clock) (events sample_session) ''/CPU:0'' = Inr () \<and>
   matrix_A sample_session = Some (2, 2) \<and> matrix_B sample_session = Some (2, 2) \<and>
   0 = time_time (sample_env True False sample_clock)
         (events sample_session @ [EnterDevice ''/CPU:0'']) \<and>
   tf_matmul (sample_env True False sample_clock)
     (events sample_session @ [EnterDevice ''/CPU:0'', ClockRead 0]) ''/CPU:0'' (2, 2) (2, 2)
     = Inr (2, 2) \<and>
   tf_numpy (sample_env True False sample_clock)
     (events sample_session @ [EnterDevice ''/CPU:0'', ClockRead 0, MatMul ''/CPU:0'']) (2, 2)
     = Inr () \<and>
   1 = time_time (sample_env True False sample_clock)
         (events sample_session @
            [EnterDevice ''/CPU:0'', ClockRead 0, MatMul ''/CPU:0'', Materialize]) \<and>
   on_grid 0 \<and> on_grid 1 \<and>
   (\<exists>s'. measure_time (sample_env True False sample_clock) ''/CPU:0'' sample_session
            = Inr (float_sub 1 0, s') \<and>
         float_sub 1 0 \<noteq> NaN \<and>
         (\<not> is_negative (float_sub 1 0) \<longleftrightarrow> (0 :: real) \<le> 1) \<and>
         ((0 :: real) \<le> 1 \<longrightarrow> float_ge_zero (float_sub 1 0)) \<and>
         (on_grid 0 \<and> on_grid 1 \<longrightarrow> (float_ge_zero (float_sub 1 0) \<longleftrightarrow> (0 :: real) \<le> 1)))"
proof -
  have h: "tf_device (sample_env True False sample_clock) (events sample_session) ''/CPU:0''
             = Inr ()"
    "matrix_A sample_session = Some (2, 2)" "matrix_B sample_session = Some (2, 2)"
    "0 = time_time (sample_env True False sample_clock)
           (events sample_session @ [EnterDevice ''/CPU:0''])"
    "tf_matmul (sample_env True False sample_clock)
       (events sample_session @ [EnterDevice ''/CPU:0'', ClockRead 0]) ''/CPU:0'' (2, 2) (2, 2)
       = Inr (2, 2)"
    "tf_numpy (sample_env True False sample_clock)
       (events sample_session @ [EnterDevice ''/CPU:0'', ClockRead 0, MatMul ''/CPU:0''])
       (2, 2) = Inr ()"
    "1 = time_time (sample_env True False sample_clock)
           (events sample_session @
              [EnterDevice ''/CPU:0'', ClockRead 0, MatMul ''/CPU:0'', Materialize])"
    by (simp_all add: sample_env_def sample_matmul_def sample_session_def create_matrices_def
        fresh_session_def emit_def always_def sample_clock_def readings_def)
  have g: "on_grid 0" "on_grid 1" by (simp_all add: on_grid_def)
  from measured_duration_follows_wall_clock[OF h] h g show ?thesis by blast
qed

subsection \<open>A device that is not there\<close>

text \<open>
  \<open>measure_time\<close> does not look at which devices exist. Where the library places an
  operation for a missing device on another one, the call for \<open>/GPU:0\<close> on a machine
  without GPU returns a duration.
\<close>

theorem absent_gpu_soft_placement_returns:
  "\<not> tf_is_gpu_available (sample_env False True sample_clock) \<and>
   map_sum id fst (measure_time (sample_env False True sample_clock) ''/GPU:0'' sample_session)
     = Inr (Finite 1)"
  by (simp add: cells samples float_eval)

text \<open>
  Claim C3, amended. \<open>measure_time\<close> raises nothing of its own and catches nothing: a
  call fails exactly when entering the device scope, the multiplication or the
  materialization fails in the library, with the library's condition
  (\<open>DeviceUnavailable\<close> where the library rejects an absent device), and then no
  duration is returned; where the library accepts the selector the call returns.
\<close>

theorem measure_time_fails_as_library_fails:
  assumes "matrix_A s = Some A" and "matrix_B s = Some B"
    and "t0 = time_time env (events s @ [EnterDevice device_name])"
  shows "measure_time env device_name s = Inl e \<longleftrightarrow>
           (tf_device env (events s) device_name = Inl e \<or>
            (\<exists>u. tf_device env (events s) device_name = Inr u) \<and>
            (tf_matmul env (events s @ [EnterDevice device_name, ClockRead t0])
               device_name A B = Inl e \<or>
             (\<exists>result.
                tf_matmul env (events s @ [EnterDevice device_name, ClockRead t0])
                  device_name A B = Inr result \<and>
                tf_numpy env
                  (events s @ [EnterDevice device_name, ClockRead t0, MatMul device_name])
                  result = Inl e)))"
  unfolding measure_time_unfold[OF assms(1,2)] assms(3)
  by (auto split: sum.splits)

theorem measure_time_fails_as_library_fails_witness:
  "matrix_A sample_session = Some (2, 2) \<and> matrix_B sample_session = Some (2, 2) \<and>
   0 = time_time (sample_env False False sample_clock)
         (events sample_session @ [EnterDevice ''/GPU:0'']) \<and>
   tf_device (sample_env False False sample_clock) (events sample_session) ''/GPU:0''
     = Inr () \<and>
   tf_matmul (sample_env False False sample_clock)
     (events sample_session @ [EnterDevice ''/GPU:0'', ClockRead 0]) ''/GPU:0'' (2, 2) (2, 2)
     = Inl DeviceUnavailable \<and>
   measure_time (sample_env False False sample_clock) ''/GPU:0'' sample_session
     = Inl DeviceUnavailable"
proof -
  have h: "matrix_A sample_session = Some (2, 2)" "matrix_B sample_session = Some (2, 2)"
    "0 = time_time (sample_env False False sample_clock)
           (events sample_session @ [EnterDevice ''/GPU:0''])"
    by (simp_all add: sample_session_def create_matrices_def emit_def fresh_session_def
        sample_env_def sample_clock_def readings_def)
  have d: "tf_device (sample_env False False sample_clock) (events sample_session) ''/GPU:0''
             = Inr ()"
    and m: "tf_matmul (sample_env False False sample_clock)
              (events sample_session @ [EnterDevice ''/GPU:0'', ClockRead 0]) ''/GPU:0''
              (2, 2) (2, 2) = Inl DeviceUnavailable"
    by (simp_all add: sample_env_def sample_matmul_def always_def)
  have "measure_time (sample_env False False sample_clock) ''/GPU:0'' sample_session
          = Inl DeviceUnavailable"
    using measure_time_fails_as_library_fails[OF h, of DeviceUnavailable] d m by blast
  with h d m show ?thesis by blast
qed

subsection \<open>The timed window\<close>

text \<open>
  Claim C5. What the library and the clock answer may depend on everything the run has
  done before the call, so the order of the calls shows in their arguments. A call of
  \<open>measure_time\<close> returns exactly when \<open>A\<close> and \<open>B\<close> are bound, the device scope
  is entered, the multiplication, which is called after the first reading of the clock,
  returns, and the materialization of its result returns; the second reading is taken
  after the materialization, and the duration is the second reading minus the first. With
  a clock that advances by the cost of what is done, the duration is the cost of the first
  reading, of the multiplication and of the materialization, and of nothing else. The two
  matrices are generated in Step 3, before the first reading of the clock of the run, and
  nothing is generated afterwards.
\<close>

theorem timed_window_brackets_operation:
  "(measure_time env d s = Inr (t, s') \<longleftrightarrow>
      (\<exists>A B u result u' t0 t1.
         matrix_A s = Some A \<and> matrix_B s = Some B \<and>
         tf_device env (events s) d = Inr u \<and>
         t0 = time_time env (events s @ [EnterDevice d]) \<and>
         tf_matmul env (events s @ [EnterDevice d, ClockRead t0]) d A B = Inr result \<and>
         tf_numpy env (events s @ [EnterDevice d, ClockRead t0, MatMul d]) result = Inr u' \<and>
         t1 = time_time env (events s @ [EnterDevice d, ClockRead t0, MatMul d, Materialize]) \<and>
         t = float_sub t1 t0 \<and>
         s' = s\<lparr>events := events s @
                [EnterDevice d, ClockRead t0, MatMul d, Materialize, ClockRead t1,
                 ExitDevice]\<rparr>)) \<and>
   ((\<forall>h. time_time env h = elapsed cost h) \<and> measure_time env d s = Inr (t, s') \<longrightarrow>
      (\<exists>t0. t0 = elapsed cost (events s) + cost (EnterDevice d) \<and>
            t = float_sub (cost (ClockRead t0) + cost (MatMul d) + cost Materialize) 0)) \<and>
   (run_all env A' B' = Inr s_end \<longrightarrow>
      (\<exists>p1 p2 rest. events s_end = [Print p1, Print p2, Generate, Generate] @ rest \<and>
                    Generate \<notin> set rest))"
proof -
  have 1: "measure_time env d s = Inr (t, s') \<longleftrightarrow>
      (\<exists>A B u result u' t0 t1.
         matrix_A s = Some A \<and> matrix_B s = Some B \<and>
         tf_device env (events s) d = Inr u \<and>
         t0 = time_time env (events s @ [EnterDevice d]) \<and>
         tf_matmul env (events s @ [EnterDevice d, ClockRead t0]) d A B = Inr result \<and>
         tf_numpy env (events s @ [EnterDevice d, ClockRead t0, MatMul d]) result = Inr u' \<and>
         t1 = time_time env (events s @ [EnterDevice d, ClockRead t0, MatMul d, Materialize]) \<and>
         t = float_sub t1 t0 \<and>
         s' = s\<lparr>events := events s @
                [EnterDevice d, ClockRead t0, MatMul d, Materialize, ClockRead t1,
                 ExitDevice]\<rparr>)"
  proof (cases "\<exists>A B. matrix_A s = Some A \<and> matrix_B s = Some B")
    case True
    then obtain A B where ab: "matrix_A s = Some A" "matrix_B s = Some B" by blast
    show ?thesis
      unfolding measure_time_unfold[OF ab] using ab by (auto split: sum.splits)
  next
    case False
    then have "measure_time env d s \<noteq> Inr (t, s')"
      using measure_time_bound[of env d s "(t, s')"] by blast
    with False show ?thesis by blast
  qed
  have 2: "(\<forall>h. time_time env h = elapsed cost h) \<and> measure_time env d s = Inr (t, s') \<longrightarrow>
      (\<exists>t0. t0 = elapsed cost (events s) + cost (EnterDevice d) \<and>
            t = float_sub (cost (ClockRead t0) + cost (MatMul d) + cost Materialize) 0)"
  proof
    assume a: "(\<forall>h. time_time env h = elapsed cost h) \<and> measure_time env d s = Inr (t, s')"
    define t0 where "t0 = elapsed cost (events s) + cost (EnterDevice d)"
    from a have clock: "\<And>h. time_time env h = elapsed cost h" by blast
    from a have m: "measure_time env d s = Inr (t, s')" by blast
    from measure_time_bound[OF m] obtain A B where
      ab: "matrix_A s = Some A" "matrix_B s = Some B" by blast
    from m have "t = float_sub
                   (time_time env
                      (events s @ [EnterDevice d,
                                   ClockRead (time_time env (events s @ [EnterDevice d])),
                                   MatMul d, Materialize]))
                   (time_time env (events s @ [EnterDevice d]))"
      unfolding measure_time_unfold[OF ab] by (auto split: sum.splits)
    then have "t = float_sub
                   (t0 + (cost (ClockRead t0) + cost (MatMul d) + cost Materialize)) t0"
      by (simp add: clock elapsed_def t0_def algebra_simps)
    then have "t = float_sub (cost (ClockRead t0) + cost (MatMul d) + cost Materialize) 0"
      by (subst (asm) float_sub_shift) simp
    then show "\<exists>t0. t0 = elapsed cost (events s) + cost (EnterDevice d) \<and>
                  t = float_sub (cost (ClockRead t0) + cost (MatMul d) + cost Materialize) 0"
      using t0_def by blast
  qed
  have 3: "run_all env A' B' = Inr s_end \<longrightarrow>
      (\<exists>p1 p2 rest. events s_end = [Print p1, Print p2, Generate, Generate] @ rest \<and>
                    Generate \<notin> set rest)"
    using run_all_events[of env A' B' s_end] by blast
  show ?thesis by (rule conjI[OF 1 conjI[OF 2 3]])
qed

lemma sample_window:
  "measure_time (sample_env True False (elapsed sample_cost)) ''/CPU:0'' sample_session =
     Inr (Finite (5 / 4),
          sample_session\<lparr>events := events sample_session @
            [EnterDevice ''/CPU:0'', ClockRead 16, MatMul ''/CPU:0'', Materialize,
             ClockRead (69 / 4), ExitDevice]\<rparr>)"
  by (simp add: cells samples float_eval)

lemma sample_run_returns:
  "\<not> isl (run_all (sample_env True False (elapsed sample_cost)) (2, 2) (2, 2))"
  by (simp add: cells samples float_eval float_div_finite)

theorem timed_window_brackets_operation_witness:
  "(\<forall>h. time_time (sample_env True False (elapsed sample_cost)) h = elapsed sample_cost h) \<and>
   (\<exists>s'. measure_time (sample_env True False (elapsed sample_cost)) ''/CPU:0'' sample_session
            = Inr (Finite (5 / 4), s') \<and>
         (\<exists>A B u result u' t0 t1.
            matrix_A sample_session = Some A \<and> matrix_B sample_session = Some B \<and>
            tf_device (sample_env True False (elapsed sample_cost)) (events sample_session)
              ''/CPU:0'' = Inr u \<and>
            t0 = time_time (sample_env True False (elapsed sample_cost))
                   (events sample_session @ [EnterDevice ''/CPU:0'']) \<and>
            tf_matmul (sample_env True False (elapsed sample_cost))
              (events sample_session @ [EnterDevice ''/CPU:0'', ClockRead t0])
              ''/CPU:0'' A B = Inr result \<and>
            tf_numpy (sample_env True False (elapsed sample_cost))
              (events sample_session @ [EnterDevice ''/CPU:0'', ClockRead t0, MatMul ''/CPU:0''])
              result = Inr u' \<and>
            t1 = time_time (sample_env True False (elapsed sample_cost))
                   (events sample_session @
                      [EnterDevice ''/CPU:0'', ClockRead t0, MatMul ''/CPU:0'', Materialize]) \<and>
            Finite (5 / 4) = float_sub t1 t0 \<and>
            s' = sample_session\<lparr>events := events sample_session @
                   [EnterDevice ''/CPU:0'', ClockRead t0, MatMul ''/CPU:0'', Materialize,
                    ClockRead t1, ExitDevice]\<rparr>) \<and>
         (\<exists>t0. t0 = elapsed sample_cost (events sample_session) +
                       sample_cost (EnterDevice ''/CPU:0'') \<and>
               Finite (5 / 4) =
                 float_sub (sample_cost (ClockRead t0) + sample_cost (MatMul ''/CPU:0'') +
                            sample_cost Materialize) 0)) \<and>
   (\<exists>s_end. run_all (sample_env True False (elapsed sample_cost)) (2, 2) (2, 2) = Inr s_end \<and>
         (\<exists>p1 p2 rest. events s_end = [Print p1, Print p2, Generate, Generate] @ rest \<and>
                       Generate \<notin> set rest))"
proof -
  have clock: "\<forall>h. time_time (sample_env True False (elapsed sample_cost)) h
                     = elapsed sample_cost h"
    by (simp add: sample_env_def)
  obtain s' where
    m: "measure_time (sample_env True False (elapsed sample_cost)) ''/CPU:0'' sample_session
          = Inr (Finite (5 / 4), s')"
    using sample_window by blast
  obtain s_end where
    r: "run_all (sample_env True False (elapsed sample_cost)) (2, 2) (2, 2) = Inr s_end"
    using sample_run_returns
    by (cases "run_all (sample_env True False (elapsed sample_cost)) (2, 2) (2, 2)") auto
  note inst = timed_window_brackets_operation[
      where env = "sample_env True False (elapsed sample_cost)" and d = "''/CPU:0''"
        and s = sample_session and t = "Finite (5 / 4)" and s' = s' and cost = sample_cost
        and A' = "(2, 2)" and B' = "(2, 2)" and s_end = s_end]
  from inst m have 1: "\<exists>A B u result u' t0 t1.
            matrix_A sample_session = Some A \<and> matrix_B sample_session = Some B \<and>
            tf_device (sample_env True False (elapsed sample_cost)) (events sample_session)
              ''/CPU:0'' = Inr u \<and>
            t0 = time_time (sample_env True False (elapsed sample_cost))
                   (events sample_session @ [EnterDevice ''/CPU:0'']) \<and>
            tf_matmul (sample_env True False (elapsed sample_cost))
              (events sample_session @ [EnterDevice ''/CPU:0'', ClockRead t0])
              ''/CPU:0'' A B = Inr result \<and>
            tf_numpy (sample_env True False (elapsed sample_cost))
              (events sample_session @ [EnterDevice ''/CPU:0'', ClockRead t0, MatMul ''/CPU:0''])
              result = Inr u' \<and>
            t1 = time_time (sample_env True False (elapsed sample_cost))
                   (events sample_session @
                      [EnterDevice ''/CPU:0'', ClockRead t0, MatMul ''/CPU:0'', Materialize]) \<and>
            Finite (5 / 4) = float_sub t1 t0 \<and>
            s' = sample_session\<lparr>events := events sample_session @
                   [EnterDevice ''/CPU:0'', ClockRead t0, MatMul ''/CPU:0'', Materialize,
                    ClockRead t1, ExitDevice]\<rparr>"
    by blast
  from inst m clock have 2: "\<exists>t0. t0 = elapsed sample_cost (events sample_session) +
                       sample_cost (EnterDevice ''/CPU:0'') \<and>
               Finite (5 / 4) =
                 float_sub (sample_cost (ClockRead t0) + sample_cost (MatMul ''/CPU:0'') +
                            sample_cost Materialize) 0"
    by blast
  from inst r have 3: "\<exists>p1 p2 rest. events s_end = [Print p1, Print p2, Generate, Generate] @ rest \<and>
                       Generate \<notin> set rest"
    by blast
  from clock m 1 2 3 r show ?thesis by blast
qed

subsection \<open>Step 5 without a GPU\<close>

text \<open>
  Claim C2. When the GPU is absent, Step 5 prints the line
  \<open>No GPU available. Skipping GPU computation.\<close> (the text passed to \<open>print\<close> starts
  with a newline, so an empty line precedes it), reads no clock and binds no variable;
  in the whole run \<open>measure_time\<close> is never entered with the selector \<open>/GPU:0\<close>.
\<close>

theorem gpu_absent_skips_timing:
  assumes "\<not> tf_is_gpu_available env"
  shows "(\<exists>s'. step5_gpu env s = Inr s' \<and>
               events s' = events s @
                 [Print (CHR 0x0A # ''No GPU available. Skipping GPU computation.'')] \<and>
               printed (events s') = printed (events s) @
                 CHR 0x0A # ''No GPU available. Skipping GPU computation.'' @ [CHR 0x0A] \<and>
               clock_reads s' = clock_reads s \<and> gpu_time s' = gpu_time s) \<and>
         (\<forall>s6. run_all env A B = Inr s6 \<longrightarrow> EnterDevice ''/GPU:0'' \<notin> set (events s6))"
proof (intro conjI allI impI)
  show "\<exists>s'. step5_gpu env s = Inr s' \<and>
               events s' = events s @
                 [Print (CHR 0x0A # ''No GPU available. Skipping GPU computation.'')] \<and>
               printed (events s') = printed (events s) @
                 CHR 0x0A # ''No GPU available. Skipping GPU computation.'' @ [CHR 0x0A] \<and>
               clock_reads s' = clock_reads s \<and> gpu_time s' = gpu_time s"
    using assms
    by (simp add: step5_gpu_def print_def emit_def printed_append clock_reads_def readings_def)
next
  fix s6 assume "run_all env A B = Inr s6"
  from run_all_events[OF this] assms
  show "EnterDevice ''/GPU:0'' \<notin> set (events s6)" by auto
qed

lemma sample_run_without_gpu:
  "\<not> isl (run_all (sample_env False False sample_clock) (2, 2) (2, 2))"
  by (simp add: cells samples float_eval)

theorem gpu_absent_skips_timing_witness:
  "\<not> tf_is_gpu_available (sample_env False False sample_clock) \<and>
   (\<exists>s'. step5_gpu (sample_env False False sample_clock) sample_session = Inr s' \<and>
         events s' = events sample_session @
           [Print (CHR 0x0A # ''No GPU available. Skipping GPU computation.'')] \<and>
         printed (events s') = printed (events sample_session) @
           CHR 0x0A # ''No GPU available. Skipping GPU computation.'' @ [CHR 0x0A] \<and>
         clock_reads s' = clock_reads sample_session \<and>
         gpu_time s' = gpu_time sample_session) \<and>
   (\<exists>s6. run_all (sample_env False False sample_clock) (2, 2) (2, 2) = Inr s6 \<and>
         EnterDevice ''/GPU:0'' \<notin> set (events s6))"
proof -
  have a: "\<not> tf_is_gpu_available (sample_env False False sample_clock)"
    by (simp add: sample_env_def)
  obtain s6 where r: "run_all (sample_env False False sample_clock) (2, 2) (2, 2) = Inr s6"
    using sample_run_without_gpu
    by (cases "run_all (sample_env False False sample_clock) (2, 2) (2, 2)") auto
  from gpu_absent_skips_timing[OF a, of sample_session "(2, 2)" "(2, 2)"] a r
  show ?thesis by blast
qed

subsection \<open>Step 6: the speedup\<close>

text \<open>
  The ratio is a division by the measured GPU time. With a clock that gives the same
  reading before and after the GPU run that time is zero, and Step 6 raises
  \<open>ZeroDivisionError\<close> after both timed runs have returned.
\<close>

theorem zero_gpu_time_raises:
  "tf_is_gpu_available (sample_env True False stalled_clock) \<and>
   map_sum id cpu_time (run_until_comparison (sample_env True False stalled_clock) (2, 2) (2, 2))
     = Inr (Some (Finite 1)) \<and>
   map_sum id gpu_time (run_until_comparison (sample_env True False stalled_clock) (2, 2) (2, 2))
     = Inr (Some (Finite 0)) \<and>
   run_all (sample_env True False stalled_clock) (2, 2) (2, 2) = Inl ZeroDivisionError"
  by (simp add: cells samples float_eval float_div_def is_zero_def)

text \<open>
  The quotient that is printed is the quotient of two floats, itself rounded to a float,
  and \<open>:.2f\<close> rounds the exact value of that float: \<open>1.0 / 200.0\<close> is a float slightly
  above \<open>0.005\<close> and prints as \<open>0.01\<close>, \<open>3.0 / 200.0\<close> is a float slightly below
  \<open>0.015\<close> and prints as \<open>0.01\<close> too.
\<close>

lemma quotient_of_floats_is_rounded_first:
  "map_sum id (format_float 2) (float_div (Finite 1) (Finite 200)) = Inr ''0.01'' \<and>
   map_sum id (format_float 2) (float_div (Finite 3) (Finite 200)) = Inr ''0.01'' \<and>
   format_f 2 (1 / 200) = ''0.00'' \<and> format_f 2 (3 / 200) = ''0.02''"
  by (simp add: float_div_finite round_double_values format_eval)

text \<open>
  Claim C6, amended. Whenever a GPU is present and both timed runs have returned, Step 6
  raises \<open>ZeroDivisionError\<close> if the measured GPU time is zero, and otherwise prints the
  line \<open>Speedup: ...x faster on GPU!\<close> with the float \<open>cpu_time / gpu_time\<close> formatted
  by \<open>:.2f\<close>, which has exactly 2 digits after the point when the quotient is finite
  (an infinite quotient prints as \<open>inf\<close> or \<open>-inf\<close>, an undefined one as \<open>nan\<close>).
\<close>

theorem comparison_prints_speedup:
  assumes "tf_is_gpu_available env" and "run_until_comparison env A B = Inr s5"
  shows "\<exists>c g. cpu_time s5 = Some c \<and> gpu_time s5 = Some g \<and>
           (is_zero g \<longrightarrow> run_all env A B = Inl ZeroDivisionError) \<and>
           (\<not> is_zero g \<longrightarrow>
              (\<exists>q. float_div c g = Inr q \<and>
                 run_all env A B =
                   Inr (s5\<lparr>events := events s5 @
                          [Print (CHR 0x0A # ''Comparison:''),
                           Print (''CPU time: '' @ format_float 4 c @ '' seconds''),
                           Print (''GPU time: '' @ format_float 4 g @ '' seconds''),
                           Print (''Speedup: '' @ format_float 2 q @ ''x faster on GPU!'')]\<rparr>) \<and>
                 (is_finite q \<longrightarrow> decimal_places (format_float 2 q) = 2)))"
proof -
  from run_until_comparison_times[OF assms] obtain c g where
    t: "cpu_time s5 = Some c" "gpu_time s5 = Some g" by blast
  have run: "run_all env A B = step6_compare env s5"
    using assms(2) by (simp add: run_all_def)
  have "is_zero g \<longrightarrow> run_all env A B = Inl ZeroDivisionError"
    using run assms(1) t float_div_raises[of g c]
    by (simp add: step6_compare_def variable_def print_def emit_def Let_def)
  moreover have "\<not> is_zero g \<longrightarrow>
              (\<exists>q. float_div c g = Inr q \<and>
                 run_all env A B =
                   Inr (s5\<lparr>events := events s5 @
                          [Print (CHR 0x0A # ''Comparison:''),
                           Print (''CPU time: '' @ format_float 4 c @ '' seconds''),
                           Print (''GPU time: '' @ format_float 4 g @ '' seconds''),
                           Print (''Speedup: '' @ format_float 2 q @ ''x faster on GPU!'')]\<rparr>) \<and>
                 (is_finite q \<longrightarrow> decimal_places (format_float 2 q) = 2))"
  proof
    assume "\<not> is_zero g"
    from float_div_returns[OF this, of c] obtain q where q: "float_div c g = Inr q" by blast
    have "is_finite q \<longrightarrow> decimal_places (format_float 2 q) = 2"
      using decimal_places_format_float[of 2 q] by simp
    with q run step6_prints_speedup[OF assms(1) t q]
    show "\<exists>q. float_div c g = Inr q \<and>
                 run_all env A B =
                   Inr (s5\<lparr>events := events s5 @
                          [Print (CHR 0x0A # ''Comparison:''),
                           Print (''CPU time: '' @ format_float 4 c @ '' seconds''),
                           Print (''GPU time: '' @ format_float 4 g @ '' seconds''),
                           Print (''Speedup: '' @ format_float 2 q @ ''x faster on GPU!'')]\<rparr>) \<and>
                 (is_finite q \<longrightarrow> decimal_places (format_float 2 q) = 2)"
      by simp
  qed
  ultimately show ?thesis using t by blast
qed

lemma sample_times:
  "map_sum id cpu_time (run_until_comparison (sample_env True False sample_clock) (2, 2) (2, 2))
     = Inr (Some (Finite 1)) \<and>
   map_sum id gpu_time (run_until_comparison (sample_env True False sample_clock) (2, 2) (2, 2))
     = Inr (Some (Finite 5))"
  by (simp add: cells samples float_eval)

lemma sample_quotient:
  "float_div (Finite 1) (Finite 5) = Inr (Finite (3602879701896397 / 18014398509481984)) \<and>
   format_float 2 (Finite (3602879701896397 / 18014398509481984)) = ''0.20'' \<and>
   is_finite (Finite (3602879701896397 / 18014398509481984)) \<and>
   \<not> is_zero (Finite 5)"
  by (simp add: float_div_finite round_double_values format_eval is_finite_def is_zero_def)

theorem comparison_prints_speedup_witness:
  "tf_is_gpu_available (sample_env True False sample_clock) \<and>
   (\<exists>s5. run_until_comparison (sample_env True False sample_clock) (2, 2) (2, 2) = Inr s5 \<and>
      cpu_time s5 = Some (Finite 1) \<and> gpu_time s5 = Some (Finite 5) \<and>
      \<not> is_zero (Finite 5) \<and>
      (\<exists>q. float_div (Finite 1) (Finite 5) = Inr q \<and> is_finite q \<and>
         format_float 2 q = ''0.20'' \<and>
         run_all (sample_env True False sample_clock) (2, 2) (2, 2) =
           Inr (s5\<lparr>events := events s5 @
                  [Print (CHR 0x0A # ''Comparison:''),
                   Print (''CPU time: '' @ format_float 4 (Finite 1) @ '' seconds''),
                   Print (''GPU time: '' @ format_float 4 (Finite 5) @ '' seconds''),
                   Print (''Speedup: '' @ format_float 2 q @ ''x faster on GPU!'')]\<rparr>) \<and>
         decimal_places (format_float 2 q) = 2))"
proof -
  have a: "tf_is_gpu_available (sample_env True False sample_clock)"
    by (simp add: sample_env_def)
  obtain s5 where
    r: "run_until_comparison (sample_env True False sample_clock) (2, 2) (2, 2) = Inr s5"
    and t: "cpu_time s5 = Some (Finite 1)" "gpu_time s5 = Some (Finite 5)"
    using sample_times
    by (cases "run_until_comparison (sample_env True False sample_clock) (2, 2) (2, 2)") auto
  from comparison_prints_speedup[OF a r] t sample_quotient a r show ?thesis by auto
qed

section \<open>Arrays the timed calls read and write\<close>












end
